theory Spec2Isabelle
  imports Main
begin

section \<open>The local embeddings controller\<close>

text \<open>
  A model of \<^verbatim>\<open>LocalEmbeddingsController\<close> (vscode/src/local-context/local-embeddings.ts).
  The controller is a record of its private fields. JavaScript runs one task at a time, and
  an \<^verbatim>\<open>async\<close> method runs without interruption up to its next \<^verbatim>\<open>await\<close>; so every
  method is cut at its awaits into segments, each segment is a function on the controller,
  and a method that is suspended at an await is a \<open>task\<close> kept in the state until the
  awaited promise settles. What the controller does to the outside (spawning the worker,
  sending a request, firing an event, settling the promise it returned to its caller) is
  appended to a trace. The worker, the workspace and the scheduler are the environment:
  they choose the actions of \<open>step\<close>.

  For a method \<open>m\<close>, the function \<open>m\<close> is its first segment, \<open>m_resume ok\<close> is what it
  does after the await of \<^verbatim>\<open>getService()\<close> (\<open>ok\<close> says that the promise was fulfilled,
  not rejected), and \<open>m_reply\<close> is what it does with the worker's reply to its request.

  Not modelled: logging, the 30 second timer that hides the status bar item, the
  formatting of the progress percentage, \<^verbatim>\<open>dispose\<close>, and listeners that call back
  into the controller while an event is being fired (a listener is taken to read the
  controller only; what it can read is the \<open>view\<close> recorded with the event).
\<close>

subsection \<open>Data\<close>

text \<open>The settlement of the promise held in \<^verbatim>\<open>this.service\<close>.\<close>

datatype settle = Pending | Fulfilled | Rejected

text \<open>The status bar item: its text, its warning background, and whether it is shown.\<close>

datatype bar_text = Blank | Loading nat nat | Warning | Sparkle

record status_bar =
  bar_text :: bar_text
  warningBackground :: bool
  shown :: bool

text \<open>The requests of the worker protocol, \<^verbatim>\<open>service.request(method, params)\<close>.\<close>

datatype request =
    Set_token string
  | Index_repo string string nat
  | Load_repo string
  | Query_repo string

text \<open>What a listener of an event can read from the controller it is handed.\<close>

record view =
  v_endpointIsDotcom :: bool
  v_lastRepo :: "(string \<times> bool) option"
  v_pathBeingIndexed :: "string option"

datatype call = C_start | C_setAccessToken | C_index | C_load | C_query | C_getContext

datatype result = R_void | R_bool bool | R_results "string list" | R_error

datatype effect =
    Spawn
  | RegisterNotification
  | Request request
  | FireStatus view
  | FireChange view
  | CaptureException
  | ShowInformationMessage
  | Settled call result

text \<open>
  \<open>eagerlyLoad\<close> is called from \<open>start\<close>, from \<open>load\<close> and from the handler of the
  \<^verbatim>\<open>Done\<close> notification; \<open>query\<close> is called by the host or from \<open>getContext\<close>.
\<close>

datatype origin = From_start | From_load | From_done

datatype caller = Direct | Via_getContext

text \<open>
  \<^verbatim>\<open>vscode.workspace.workspaceFolders\<close> is \<^verbatim>\<open>undefined\<close> when no workspace is open,
  or an array of folders, which may be empty; of a non-empty one the controller reads the
  \<^verbatim>\<open>fsPath\<close> of the first folder only. The expression
  \<^verbatim>\<open>workspaceFolders?.[0].uri\<close> (lines 56 and 178) throws a TypeError on the empty array.
\<close>

datatype folders = No_workspace | No_folders | First_folder string


text \<open>A suspended method: the await it is stopped at, and the locals it still needs.\<close>

datatype task =
    Start_awaits_service
  | SetAccessToken_awaits_service string
  | Index_awaits_service string
  | Index_awaits_reply string
  | Load_awaits_service
  | EagerlyLoad_awaits_service origin string
  | EagerlyLoad_awaits_reply origin string
  | Query_awaits_service caller string
  | Query_awaits_reply caller string

record controller =
  service :: "settle option"
  serviceStarted :: bool
  accessToken :: "string option"
  endpointIsDotcom :: bool
  statusBar :: "status_bar option"
  lastRepo :: "(string \<times> bool) option"
  pathBeingIndexed :: "string option"
  workspaceFolders :: folders
  tasks :: "task list"
  trace :: "effect list"

text \<open>The controller as its constructor leaves it.\<close>

definition createLocalEmbeddingsController :: controller where
  "createLocalEmbeddingsController =
     \<lparr>service = None, serviceStarted = False, accessToken = None, endpointIsDotcom = False,
      statusBar = None, lastRepo = None, pathBeingIndexed = None, workspaceFolders = No_workspace,
      tasks = [], trace = []\<rparr>"

subsection \<open>Helpers of the model\<close>

definition emit :: "effect \<Rightarrow> controller \<Rightarrow> controller" where
  "emit e s = s\<lparr>trace := trace s @ [e]\<rparr>"

definition suspend :: "task \<Rightarrow> controller \<Rightarrow> controller" where
  "suspend t s = s\<lparr>tasks := tasks s @ [t]\<rparr>"

definition observe :: "controller \<Rightarrow> view" where
  "observe s = \<lparr>v_endpointIsDotcom = endpointIsDotcom s, v_lastRepo = lastRepo s,
                v_pathBeingIndexed = pathBeingIndexed s\<rparr>"

definition fireStatus :: "controller \<Rightarrow> controller" where
  "fireStatus s = emit (FireStatus (observe s)) s"

definition fireChange :: "controller \<Rightarrow> controller" where
  "fireChange s = emit (FireChange (observe s)) s"

text \<open>A JavaScript string is truthy when it is not empty.\<close>

definition truthy :: "string \<Rightarrow> bool" where
  "truthy p = (p \<noteq> [])"

text \<open>How a method settles the promise it gave to its caller.\<close>

definition call_of :: "caller \<Rightarrow> call" where
  "call_of c = (case c of Direct \<Rightarrow> C_query | Via_getContext \<Rightarrow> C_getContext)"

subsection \<open>The session: getService and spawnAndBindService\<close>

text \<open>
  \<^verbatim>\<open>getService\<close> (lines 85-90) is synchronous. When the field is empty it calls
  \<^verbatim>\<open>spawnAndBindService\<close>, which runs up to its first await, that is, it calls
  \<^verbatim>\<open>spawnBfg\<close>; the pending promise is stored in the field.
\<close>

definition getService :: "controller \<Rightarrow> controller" where
  "getService s =
     (if service s = None then (emit Spawn s)\<lparr>service := Some Pending\<rparr> else s)"

text \<open>
  The rest of \<^verbatim>\<open>spawnAndBindService\<close> (lines 102-160) runs when the spawn settles:
  with a message handler, with a rejection of the promise of \<^verbatim>\<open>spawnBfg\<close> (captured),
  or through the \<^verbatim>\<open>reject\<close> callback handed to \<^verbatim>\<open>spawnBfg\<close>.
\<close>

datatype spawn_result = Bfg | Spawn_rejected | Spawn_error_callback

definition spawnAndBindService :: "spawn_result \<Rightarrow> controller \<Rightarrow> controller" where
  "spawnAndBindService r s =
     (case r of
        Bfg \<Rightarrow>
          (let s1 = emit RegisterNotification s;
               s2 = (case accessToken s1 of
                       Some a \<Rightarrow> if truthy a then emit (Request (Set_token a)) s1 else s1
                     | None \<Rightarrow> s1);
               s3 = s2\<lparr>serviceStarted := True\<rparr>;
               s4 = fireChange s3
           in s4\<lparr>service := Some Fulfilled\<rparr>)
      | Spawn_rejected \<Rightarrow> (emit CaptureException s)\<lparr>service := Some Rejected\<rparr>
      | Spawn_error_callback \<Rightarrow> s\<lparr>service := Some Rejected\<rparr>)"

subsection \<open>eagerlyLoad\<close>

text \<open>
  Lines 286-293. The first segment calls \<^verbatim>\<open>getService\<close> and awaits it; the second
  sends \<^verbatim>\<open>embeddings/load\<close> and awaits the reply; the third stores the reply in
  \<^verbatim>\<open>lastRepo\<close>, fires the status event and returns to the caller. A rejection at
  either await leaves \<^verbatim>\<open>lastRepo\<close> alone and is thrown to the caller; the handler of
  \<^verbatim>\<open>Done\<close> calls it under \<^verbatim>\<open>void\<close>, where the rejection goes nowhere.
\<close>

definition eagerlyLoad :: "origin \<Rightarrow> string \<Rightarrow> controller \<Rightarrow> controller" where
  "eagerlyLoad c repoPath s = suspend (EagerlyLoad_awaits_service c repoPath) (getService s)"

definition eagerlyLoad_throws :: "origin \<Rightarrow> controller \<Rightarrow> controller" where
  "eagerlyLoad_throws c s =
     (case c of
        From_start \<Rightarrow> emit (Settled C_start R_error) s
      | From_load \<Rightarrow> emit (Settled C_load R_error) s
      | From_done \<Rightarrow> s)"

definition eagerlyLoad_resume :: "bool \<Rightarrow> origin \<Rightarrow> string \<Rightarrow> controller \<Rightarrow> controller" where
  "eagerlyLoad_resume ok c repoPath s =
     (if ok then suspend (EagerlyLoad_awaits_reply c repoPath) (emit (Request (Load_repo repoPath)) s)
      else eagerlyLoad_throws c s)"

definition eagerlyLoad_reply :: "bool option \<Rightarrow> origin \<Rightarrow> string \<Rightarrow> controller \<Rightarrow> controller" where
  "eagerlyLoad_reply reply c repoPath s =
     (case reply of
        None \<Rightarrow> eagerlyLoad_throws c s
      | Some loadResult \<Rightarrow>
          (let s1 = fireStatus (s\<lparr>lastRepo := Some (repoPath, loadResult)\<rparr>)
           in case c of
                From_start \<Rightarrow> emit (Settled C_start R_void) s1
              | From_load \<Rightarrow> emit (Settled C_load (R_bool loadResult)) s1
              | From_done \<Rightarrow> fireChange s1))"

subsection \<open>start\<close>

text \<open>
  Lines 53-60. After the await, line 56 reads the first workspace folder; on an empty
  array of folders it throws, and the promise of \<^verbatim>\<open>start\<close> is rejected.
\<close>

definition start :: "controller \<Rightarrow> controller" where
  "start s = suspend Start_awaits_service (getService s)"

definition start_resume :: "bool \<Rightarrow> controller \<Rightarrow> controller" where
  "start_resume ok s =
     (if ok then
        (case workspaceFolders s of
           First_folder fsPath \<Rightarrow> eagerlyLoad From_start fsPath s
         | No_workspace \<Rightarrow> emit (Settled C_start R_void) s
         | No_folders \<Rightarrow> emit (Settled C_start R_error) s)
      else emit (Settled C_start R_error) s)"

subsection \<open>setAccessToken\<close>

text \<open>
  Lines 62-83. \<^verbatim>\<open>token\<close> is a string or \<^verbatim>\<open>null\<close>, \<^verbatim>\<open>this.accessToken\<close> a string or
  \<^verbatim>\<open>undefined\<close>: \<^verbatim>\<open>token === this.accessToken\<close> holds for two equal strings only.
  \<^verbatim>\<open>DOTCOM_URL\<close> is imported from the shared package; its string is a parameter
  here. The events are fired before the field \<^verbatim>\<open>endpointIsDotcom\<close> is assigned.
\<close>

definition same_token :: "string option \<Rightarrow> string option \<Rightarrow> bool" where
  "same_token token held =
     (case token of
        Some t \<Rightarrow> (case held of Some a \<Rightarrow> t = a | None \<Rightarrow> False)
      | None \<Rightarrow> False)"

definition setAccessToken :: "string \<Rightarrow> string \<Rightarrow> string option \<Rightarrow> controller \<Rightarrow> controller" where
  "setAccessToken dotcom_url serverEndpoint token s =
     (let isDotcom = (serverEndpoint = dotcom_url);
          s1 = (if isDotcom \<noteq> endpointIsDotcom s
                then (let f = fireStatus s in if serviceStarted f then fireChange f else f)
                else s);
          s2 = s1\<lparr>endpointIsDotcom := isDotcom\<rparr>
      in if same_token token (accessToken s2) then emit (Settled C_setAccessToken R_void) s2
         else
           (let s3 = s2\<lparr>accessToken :=
                          (case token of
                             Some t \<Rightarrow> if truthy t then Some t else None
                           | None \<Rightarrow> None)\<rparr>
            in case token of
                 Some t \<Rightarrow>
                   if truthy t \<and> serviceStarted s3
                   then suspend (SetAccessToken_awaits_service t) (getService s3)
                   else emit (Settled C_setAccessToken R_void) s3
               | None \<Rightarrow> emit (Settled C_setAccessToken R_void) s3))"

definition setAccessToken_resume :: "bool \<Rightarrow> string \<Rightarrow> controller \<Rightarrow> controller" where
  "setAccessToken_resume ok token s =
     (if ok then emit (Settled C_setAccessToken R_void) (emit (Request (Set_token token)) s)
      else emit (Settled C_setAccessToken R_error) s)"

subsection \<open>index\<close>

text \<open>Lines 231-255. Every failure inside the \<^verbatim>\<open>try\<close> is captured and not thrown.\<close>

definition index :: "controller \<Rightarrow> controller" where
  "index s =
     (case lastRepo s of
        Some (repoPath, loadResult) \<Rightarrow>
          if endpointIsDotcom s \<and> truthy repoPath \<and> \<not> loadResult
          then suspend (Index_awaits_service repoPath) (getService s)
          else emit (Settled C_index R_void) s
      | None \<Rightarrow> emit (Settled C_index R_void) s)"

definition index_resume :: "bool \<Rightarrow> string \<Rightarrow> controller \<Rightarrow> controller" where
  "index_resume ok repoPath s =
     (if ok
      then suspend (Index_awaits_reply repoPath)
             (emit (Request (Index_repo repoPath ''openai/text-embedding-ada-002'' 1536)) s)
      else emit (Settled C_index R_void) (emit CaptureException s))"

definition index_reply :: "bool \<Rightarrow> string \<Rightarrow> controller \<Rightarrow> controller" where
  "index_reply ok repoPath s =
     (if ok
      then emit (Settled C_index R_void)
             (fireStatus
                (s\<lparr>pathBeingIndexed := Some repoPath,
                   statusBar := Some \<lparr>bar_text = Blank, warningBackground = False, shown = False\<rparr>\<rparr>))
      else emit (Settled C_index R_void) (emit CaptureException s))"

subsection \<open>load\<close>

text \<open>
  Lines 257-284. \<^verbatim>\<open>repoUri\<close> is a Uri or \<^verbatim>\<open>undefined\<close>; the model passes its
  \<^verbatim>\<open>fsPath\<close>. Before the service has started, \<^verbatim>\<open>load\<close> starts it in a detached
  function with its own \<^verbatim>\<open>try\<close> and answers false at once. \<open>load_uncached\<close> is the
  end of the method, lines 271-283, reached when the path is not the cached one.
\<close>

definition load_uncached :: "string \<Rightarrow> controller \<Rightarrow> controller" where
  "load_uncached repoPath s =
     (if \<not> serviceStarted s
      then emit (Settled C_load (R_bool False)) (suspend Load_awaits_service (getService s))
      else eagerlyLoad From_load repoPath s)"

definition load :: "string option \<Rightarrow> controller \<Rightarrow> controller" where
  "load repoUri s =
     (if \<not> endpointIsDotcom s then emit (Settled C_load (R_bool False)) s
      else case repoUri of
             None \<Rightarrow> emit (Settled C_load (R_bool False)) s
           | Some repoPath \<Rightarrow>
               if \<not> truthy repoPath then emit (Settled C_load (R_bool False)) s
               else (case lastRepo s of
                       Some (path, loadResult) \<Rightarrow>
                         if repoPath = path then emit (Settled C_load (R_bool loadResult)) s
                         else load_uncached repoPath s
                     | None \<Rightarrow> load_uncached repoPath s))"

definition load_resume :: "bool \<Rightarrow> controller \<Rightarrow> controller" where
  "load_resume ok s = (if ok then s else emit CaptureException s)"

subsection \<open>query and getContext\<close>

text \<open>
  Lines 295-312. \<^verbatim>\<open>getContext\<close> awaits \<^verbatim>\<open>query\<close> inside a \<^verbatim>\<open>try\<close>; the caller
  tag says whether a rejection is thrown to the host or caught there.
\<close>

definition query_throws :: "caller \<Rightarrow> controller \<Rightarrow> controller" where
  "query_throws c s =
     (case c of
        Direct \<Rightarrow> emit (Settled C_query R_error) s
      | Via_getContext \<Rightarrow> emit (Settled C_getContext (R_results [])) (emit CaptureException s))"

definition query_from :: "caller \<Rightarrow> string \<Rightarrow> controller \<Rightarrow> controller" where
  "query_from c q s =
     (if \<not> endpointIsDotcom s then emit (Settled (call_of c) (R_results [])) s
      else suspend (Query_awaits_service c q) (getService s))"

definition query :: "string \<Rightarrow> controller \<Rightarrow> controller" where
  "query q s = query_from Direct q s"

definition getContext :: "string \<Rightarrow> nat \<Rightarrow> controller \<Rightarrow> controller" where
  "getContext q numResults s = query_from Via_getContext q s"

definition query_resume :: "bool \<Rightarrow> caller \<Rightarrow> string \<Rightarrow> controller \<Rightarrow> controller" where
  "query_resume ok c q s =
     (if ok then suspend (Query_awaits_reply c q) (emit (Request (Query_repo q)) s)
      else query_throws c s)"

definition query_reply :: "string list option \<Rightarrow> caller \<Rightarrow> controller \<Rightarrow> controller" where
  "query_reply reply c s =
     (case reply of
        Some results \<Rightarrow> emit (Settled (call_of c) (R_results results)) s
      | None \<Rightarrow> query_throws c s)"

subsection \<open>The notification handler\<close>

text \<open>
  Lines 103-145, the handler registered for \<^verbatim>\<open>embeddings/progress\<close>. The payload is an
  object with a \<^verbatim>\<open>Progress\<close> member, an object with an \<^verbatim>\<open>Error\<close> member, another
  object, the string \<^verbatim>\<open>Done\<close>, or another value.
\<close>

datatype payload = Progress nat nat | Error_object | Other_object | Done | Other_value

definition progress :: "payload \<Rightarrow> controller \<Rightarrow> controller" where
  "progress obj s =
     (case statusBar s of
        None \<Rightarrow> s
      | Some bar \<Rightarrow>
          (case obj of
             Progress numItems totalItems \<Rightarrow>
               s\<lparr>statusBar := Some \<lparr>bar_text = Loading numItems totalItems,
                                     warningBackground = False, shown = True\<rparr>\<rparr>
           | Error_object \<Rightarrow>
               s\<lparr>statusBar := Some \<lparr>bar_text = Warning, warningBackground = True, shown = True\<rparr>\<rparr>
           | Other_object \<Rightarrow> s
           | Done \<Rightarrow>
               (let s1 = s\<lparr>statusBar := None\<rparr>;
                    s2 = (case pathBeingIndexed s1 of
                            Some path \<Rightarrow>
                              if truthy path \<and>
                                 (case lastRepo s1 of None \<Rightarrow> True | Some (p, r) \<Rightarrow> p = path)
                              then eagerlyLoad From_done path s1
                              else s1
                          | None \<Rightarrow> s1);
                    s3 = s2\<lparr>pathBeingIndexed := None\<rparr>
                in fireStatus s3)
           | Other_value \<Rightarrow> emit ShowInformationMessage s))"

subsection \<open>The status getter\<close>







subsection \<open>The environment\<close>

text \<open>
  An action is a call of a public method, the settling of the spawn, a notification
  pushed by the worker, a change of the first workspace folder, or the continuation of
  the \<open>i\<close>-th suspended task: after \<^verbatim>\<open>this.service\<close> has settled, or with the worker's
  reply to the request the task sent (\<open>None\<close> and \<open>False\<close> are a rejected request).
  An action that is not possible in the state leaves it as it is.
\<close>

datatype action =
    Call_start
  | Call_setAccessToken string "string option"
  | Call_index
  | Call_load "string option"
  | Call_query string
  | Call_getContext string nat
  | Spawn_settles spawn_result
  | Notify payload
  | Workspace folders
  | Service_resumes nat
  | Index_replies nat bool
  | Load_replies nat "bool option"
  | Query_replies nat "string list option"

definition remove_task :: "nat \<Rightarrow> controller \<Rightarrow> controller" where
  "remove_task i s = s\<lparr>tasks := take i (tasks s) @ drop (Suc i) (tasks s)\<rparr>"

definition service_resumes :: "bool \<Rightarrow> task \<Rightarrow> controller \<Rightarrow> controller option" where
  "service_resumes ok t s =
     (case t of
        Start_awaits_service \<Rightarrow> Some (start_resume ok s)
      | SetAccessToken_awaits_service token \<Rightarrow> Some (setAccessToken_resume ok token s)
      | Index_awaits_service repoPath \<Rightarrow> Some (index_resume ok repoPath s)
      | Load_awaits_service \<Rightarrow> Some (load_resume ok s)
      | EagerlyLoad_awaits_service c repoPath \<Rightarrow> Some (eagerlyLoad_resume ok c repoPath s)
      | Query_awaits_service c q \<Rightarrow> Some (query_resume ok c q s)
      | _ \<Rightarrow> None)"

definition step :: "string \<Rightarrow> action \<Rightarrow> controller \<Rightarrow> controller" where
  "step dotcom_url a s =
     (case a of
        Call_start \<Rightarrow> start s
      | Call_setAccessToken serverEndpoint token \<Rightarrow> setAccessToken dotcom_url serverEndpoint token s
      | Call_index \<Rightarrow> index s
      | Call_load repoUri \<Rightarrow> load repoUri s
      | Call_query q \<Rightarrow> query q s
      | Call_getContext q n \<Rightarrow> getContext q n s
      | Spawn_settles r \<Rightarrow> if service s = Some Pending then spawnAndBindService r s else s
      | Notify obj \<Rightarrow> if serviceStarted s then progress obj s else s
      | Workspace w \<Rightarrow> s\<lparr>workspaceFolders := w\<rparr>
      | Service_resumes i \<Rightarrow>
          if i < length (tasks s) \<and> (service s = Some Fulfilled \<or> service s = Some Rejected)
          then (case service_resumes (service s = Some Fulfilled) (tasks s ! i) (remove_task i s) of
                  Some s' \<Rightarrow> s'
                | None \<Rightarrow> s)
          else s
      | Index_replies i ok \<Rightarrow>
          if i < length (tasks s)
          then (case tasks s ! i of
                  Index_awaits_reply repoPath \<Rightarrow> index_reply ok repoPath (remove_task i s)
                | _ \<Rightarrow> s)
          else s
      | Load_replies i reply \<Rightarrow>
          if i < length (tasks s)
          then (case tasks s ! i of
                  EagerlyLoad_awaits_reply c repoPath \<Rightarrow>
                    eagerlyLoad_reply reply c repoPath (remove_task i s)
                | _ \<Rightarrow> s)
          else s
      | Query_replies i reply \<Rightarrow>
          if i < length (tasks s)
          then (case tasks s ! i of
                  Query_awaits_reply c q \<Rightarrow> query_reply reply c (remove_task i s)
                | _ \<Rightarrow> s)
          else s)"

fun run :: "string \<Rightarrow> action list \<Rightarrow> controller \<Rightarrow> controller" where
  "run dotcom_url [] s = s"
| "run dotcom_url (a # as) s = run dotcom_url as (step dotcom_url a s)"

subsection \<open>Notions used by the properties\<close>

text \<open>How often \<^verbatim>\<open>spawnBfg\<close> has been called.\<close>

definition spawns :: "controller \<Rightarrow> nat" where
  "spawns s = length (filter (\<lambda>e. e = Spawn) (trace s))"

text \<open>How often the status event and the change event have been fired.\<close>

definition is_status :: "effect \<Rightarrow> bool" where
  "is_status e = (case e of FireStatus v \<Rightarrow> True | _ \<Rightarrow> False)"

definition is_change :: "effect \<Rightarrow> bool" where
  "is_change e = (case e of FireChange v \<Rightarrow> True | _ \<Rightarrow> False)"

definition status_events :: "effect list \<Rightarrow> nat" where
  "status_events es = length (filter is_status es)"

text \<open>
  A change event shows indexing when its listener finds \<^verbatim>\<open>pathBeingIndexed\<close> set; the
  second function counts these events.
\<close>

definition shows_indexing :: "effect \<Rightarrow> bool" where
  "shows_indexing e = (case e of FireChange v \<Rightarrow> v_pathBeingIndexed v \<noteq> None | _ \<Rightarrow> False)"

definition changes_while_indexing :: "controller \<Rightarrow> nat" where
  "changes_while_indexing s = length (filter shows_indexing (trace s))"

text \<open>
  The guard of index orchestration, in the words of the specification: the backend is
  primary, a repository path is cached, and its load result is false.
\<close>

definition may_index :: "bool \<Rightarrow> (string \<times> bool) option \<Rightarrow> bool" where
  "may_index primary repo =
     (primary \<and> (case repo of Some (path, loadResult) \<Rightarrow> path \<noteq> [] \<and> \<not> loadResult | None \<Rightarrow> False))"

text \<open>
  What holds in every state the controller can reach: the worker has been spawned once
  if the field \<^verbatim>\<open>service\<close> is set and never otherwise, the service counts as started
  exactly when its promise is fulfilled, and a load result is cached, or a load request
  is under way, only after the service has started.
\<close>

fun needs_started :: "task \<Rightarrow> bool" where
  "needs_started (EagerlyLoad_awaits_reply c p) = True"
| "needs_started t = False"

definition consistent :: "controller \<Rightarrow> bool" where
  "consistent s \<longleftrightarrow>
     spawns s = (if service s = None then 0 else 1) \<and>
     (serviceStarted s \<longleftrightarrow> service s = Some Fulfilled) \<and>
     (lastRepo s \<noteq> None \<longrightarrow> serviceStarted s) \<and>
     (\<forall>t \<in> set (tasks s). needs_started t \<longrightarrow> serviceStarted s)"

section \<open>Properties\<close>

subsection \<open>The fields after each helper\<close>

lemma emit_fields [simp]:
  "service (emit e s) = service s" "serviceStarted (emit e s) = serviceStarted s"
  "accessToken (emit e s) = accessToken s" "endpointIsDotcom (emit e s) = endpointIsDotcom s"
  "statusBar (emit e s) = statusBar s" "lastRepo (emit e s) = lastRepo s"
  "pathBeingIndexed (emit e s) = pathBeingIndexed s" "workspaceFolders (emit e s) = workspaceFolders s"
  "tasks (emit e s) = tasks s" "trace (emit e s) = trace s @ [e]"
  by (simp_all add: emit_def)

lemma suspend_fields [simp]:
  "service (suspend t s) = service s" "serviceStarted (suspend t s) = serviceStarted s"
  "accessToken (suspend t s) = accessToken s" "endpointIsDotcom (suspend t s) = endpointIsDotcom s"
  "statusBar (suspend t s) = statusBar s" "lastRepo (suspend t s) = lastRepo s"
  "pathBeingIndexed (suspend t s) = pathBeingIndexed s" "workspaceFolders (suspend t s) = workspaceFolders s"
  "tasks (suspend t s) = tasks s @ [t]" "trace (suspend t s) = trace s"
  by (simp_all add: suspend_def)

lemma fireStatus_fields [simp]:
  "service (fireStatus s) = service s" "serviceStarted (fireStatus s) = serviceStarted s"
  "accessToken (fireStatus s) = accessToken s" "endpointIsDotcom (fireStatus s) = endpointIsDotcom s"
  "statusBar (fireStatus s) = statusBar s" "lastRepo (fireStatus s) = lastRepo s"
  "pathBeingIndexed (fireStatus s) = pathBeingIndexed s" "workspaceFolders (fireStatus s) = workspaceFolders s"
  "tasks (fireStatus s) = tasks s" "trace (fireStatus s) = trace s @ [FireStatus (observe s)]"
  by (simp_all add: fireStatus_def)

lemma fireChange_fields [simp]:
  "service (fireChange s) = service s" "serviceStarted (fireChange s) = serviceStarted s"
  "accessToken (fireChange s) = accessToken s" "endpointIsDotcom (fireChange s) = endpointIsDotcom s"
  "statusBar (fireChange s) = statusBar s" "lastRepo (fireChange s) = lastRepo s"
  "pathBeingIndexed (fireChange s) = pathBeingIndexed s" "workspaceFolders (fireChange s) = workspaceFolders s"
  "tasks (fireChange s) = tasks s" "trace (fireChange s) = trace s @ [FireChange (observe s)]"
  by (simp_all add: fireChange_def)

lemma getService_fields [simp]:
  "service (getService s) = (if service s = None then Some Pending else service s)"
  "serviceStarted (getService s) = serviceStarted s"
  "accessToken (getService s) = accessToken s" "endpointIsDotcom (getService s) = endpointIsDotcom s"
  "statusBar (getService s) = statusBar s" "lastRepo (getService s) = lastRepo s"
  "pathBeingIndexed (getService s) = pathBeingIndexed s" "workspaceFolders (getService s) = workspaceFolders s"
  "tasks (getService s) = tasks s"
  "trace (getService s) = (if service s = None then trace s @ [Spawn] else trace s)"
  by (simp_all add: getService_def)

lemma remove_task_fields [simp]:
  "service (remove_task i s) = service s" "serviceStarted (remove_task i s) = serviceStarted s"
  "accessToken (remove_task i s) = accessToken s" "endpointIsDotcom (remove_task i s) = endpointIsDotcom s"
  "statusBar (remove_task i s) = statusBar s" "lastRepo (remove_task i s) = lastRepo s"
  "pathBeingIndexed (remove_task i s) = pathBeingIndexed s" "workspaceFolders (remove_task i s) = workspaceFolders s"
  "tasks (remove_task i s) = take i (tasks s) @ drop (Suc i) (tasks s)" "trace (remove_task i s) = trace s"
  by (simp_all add: remove_task_def)

lemma is_status_simps [simp]:
  "is_status (FireStatus v) = True" "is_status (FireChange v) = False" "is_status Spawn = False"
  "is_status RegisterNotification = False" "is_status (Request q) = False"
  "is_status CaptureException = False" "is_status ShowInformationMessage = False"
  "is_status (Settled c r) = False"
  by (simp_all add: is_status_def)

lemma status_events_simps [simp]:
  "status_events [] = 0"
  "status_events (e # es) = (if is_status e then 1 else 0) + status_events es"
  "status_events (es @ fs) = status_events es + status_events fs"
  by (simp_all add: status_events_def)

lemma observe_simps [simp]:
  "observe (emit e s) = observe s" "observe (suspend t s) = observe s"
  "observe (fireStatus s) = observe s" "observe (fireChange s) = observe s"
  "observe (getService s) = observe s" "observe (remove_task i s) = observe s"
  by (simp_all add: observe_def)

lemma step_Service_resumes:
  "i < length (tasks s) \<Longrightarrow> service s = Some Fulfilled \<Longrightarrow>
   step u (Service_resumes i) s =
     (case service_resumes True (tasks s ! i) (remove_task i s) of Some s' \<Rightarrow> s' | None \<Rightarrow> s)"
  by (simp add: step_def)

lemma spawns_simps [simp]:
  "spawns (emit e s) = spawns s + (if e = Spawn then 1 else 0)"
  "spawns (suspend t s) = spawns s"
  "spawns (fireStatus s) = spawns s"
  "spawns (fireChange s) = spawns s"
  "spawns (remove_task i s) = spawns s"
  "spawns (getService s) = spawns s + (if service s = None then 1 else 0)"
  by (simp_all add: spawns_def)

lemma spawns_update [simp]:
  "spawns (s\<lparr>service := a\<rparr>) = spawns s"
  "spawns (s\<lparr>serviceStarted := b\<rparr>) = spawns s"
  "spawns (s\<lparr>accessToken := c\<rparr>) = spawns s"
  "spawns (s\<lparr>endpointIsDotcom := d\<rparr>) = spawns s"
  "spawns (s\<lparr>statusBar := e\<rparr>) = spawns s"
  "spawns (s\<lparr>lastRepo := f\<rparr>) = spawns s"
  "spawns (s\<lparr>pathBeingIndexed := g\<rparr>) = spawns s"
  "spawns (s\<lparr>workspaceFolders := h\<rparr>) = spawns s"
  "spawns (s\<lparr>tasks := k\<rparr>) = spawns s"
  by (simp_all add: spawns_def)

lemma set_remove_subset: "x \<in> set (take i xs @ drop (Suc i) xs) \<Longrightarrow> x \<in> set xs"
  by (auto dest: in_set_takeD in_set_dropD)

lemma consistent_emit: "e \<noteq> Spawn \<Longrightarrow> consistent (emit e s) = consistent s"
  by (simp add: consistent_def)

lemma consistent_fire [simp]: "consistent (fireStatus s) = consistent s" "consistent (fireChange s) = consistent s"
  by (simp_all add: consistent_def)

lemma consistent_suspend: "consistent (suspend t s) = (consistent s \<and> (needs_started t \<longrightarrow> serviceStarted s))"
  by (auto simp add: consistent_def)

lemma consistent_getService [simp]: "consistent (getService s) = consistent s"
  by (auto simp add: consistent_def)

lemma consistent_remove: "consistent s \<Longrightarrow> consistent (remove_task i s)"
  by (auto simp add: consistent_def dest: in_set_takeD in_set_dropD)


lemma consistent_update [simp]:
  "consistent (s\<lparr>accessToken := c\<rparr>) = consistent s"
  "consistent (s\<lparr>endpointIsDotcom := d\<rparr>) = consistent s"
  "consistent (s\<lparr>statusBar := e\<rparr>) = consistent s"
  "consistent (s\<lparr>pathBeingIndexed := g\<rparr>) = consistent s"
  "consistent (s\<lparr>workspaceFolders := h\<rparr>) = consistent s"
  by (simp_all add: consistent_def)

lemma consistent_lastRepo: "serviceStarted s \<Longrightarrow> consistent (s\<lparr>lastRepo := x\<rparr>) = consistent s"
  by (simp add: consistent_def)

lemma consistent_started: "consistent s \<Longrightarrow> serviceStarted s = (service s = Some Fulfilled)"
  by (simp add: consistent_def)

lemma consistent_spawnAndBindService:
  "consistent s \<Longrightarrow> service s = Some Pending \<Longrightarrow> consistent (spawnAndBindService r s)"
  by (cases r; cases "accessToken s") (auto simp add: consistent_def spawnAndBindService_def Let_def)

lemma consistent_eagerlyLoad: "consistent s \<Longrightarrow> consistent (eagerlyLoad c p s)"
  by (simp add: eagerlyLoad_def consistent_suspend)

lemma consistent_eagerlyLoad_throws: "consistent s \<Longrightarrow> consistent (eagerlyLoad_throws c s)"
  by (cases c) (simp_all add: eagerlyLoad_throws_def consistent_emit)

lemma consistent_eagerlyLoad_resume:
  "consistent s \<Longrightarrow> ok \<longrightarrow> serviceStarted s \<Longrightarrow> consistent (eagerlyLoad_resume ok c p s)"
  by (simp add: eagerlyLoad_resume_def consistent_suspend consistent_emit consistent_eagerlyLoad_throws)

lemma consistent_eagerlyLoad_reply:
  "consistent s \<Longrightarrow> serviceStarted s \<Longrightarrow> consistent (eagerlyLoad_reply r c p s)"
  by (cases r; cases c)
    (simp_all add: eagerlyLoad_reply_def consistent_emit consistent_eagerlyLoad_throws consistent_lastRepo)

lemma consistent_start: "consistent s \<Longrightarrow> consistent (start s)"
  by (simp add: start_def consistent_suspend)

lemma consistent_start_resume: "consistent s \<Longrightarrow> consistent (start_resume ok s)"
  by (simp add: start_resume_def consistent_emit consistent_eagerlyLoad split: folders.splits)

lemma consistent_setAccessToken: "consistent s \<Longrightarrow> consistent (setAccessToken u e t s)"
  by (simp add: setAccessToken_def Let_def consistent_emit consistent_suspend split: option.splits)

lemma consistent_setAccessToken_resume: "consistent s \<Longrightarrow> consistent (setAccessToken_resume ok t s)"
  by (simp add: setAccessToken_resume_def consistent_emit)

lemma consistent_index: "consistent s \<Longrightarrow> consistent (index s)"
  by (simp add: index_def consistent_emit consistent_suspend split: option.splits prod.splits)

lemma consistent_index_resume: "consistent s \<Longrightarrow> consistent (index_resume ok p s)"
  by (simp add: index_resume_def consistent_emit consistent_suspend)

lemma consistent_index_reply: "consistent s \<Longrightarrow> consistent (index_reply ok p s)"
  by (simp add: index_reply_def consistent_emit)

lemma consistent_load: "consistent s \<Longrightarrow> consistent (load u s)"
  by (simp add: load_def load_uncached_def consistent_emit consistent_suspend consistent_eagerlyLoad
      split: option.splits prod.splits)

lemma consistent_load_resume: "consistent s \<Longrightarrow> consistent (load_resume ok s)"
  by (simp add: load_resume_def consistent_emit)

lemma consistent_query_from: "consistent s \<Longrightarrow> consistent (query_from c q s)"
  by (simp add: query_from_def consistent_emit consistent_suspend)

lemma consistent_query_throws: "consistent s \<Longrightarrow> consistent (query_throws c s)"
  by (cases c) (simp_all add: query_throws_def consistent_emit)

lemma consistent_query_resume: "consistent s \<Longrightarrow> consistent (query_resume ok c q s)"
  by (simp add: query_resume_def consistent_emit consistent_suspend consistent_query_throws)

lemma consistent_query_reply: "consistent s \<Longrightarrow> consistent (query_reply r c s)"
  by (simp add: query_reply_def consistent_emit consistent_query_throws split: option.splits)

lemma consistent_progress: "consistent s \<Longrightarrow> consistent (progress obj s)"
  by (simp add: progress_def Let_def consistent_emit consistent_eagerlyLoad
      split: option.splits payload.splits prod.splits)

lemma consistent_service_resumes:
  "consistent s \<Longrightarrow> ok \<longrightarrow> serviceStarted s \<Longrightarrow> service_resumes ok t s = Some s' \<Longrightarrow> consistent s'"
  by (cases t)
    (auto simp add: service_resumes_def consistent_start_resume consistent_setAccessToken_resume
      consistent_index_resume consistent_load_resume consistent_eagerlyLoad_resume consistent_query_resume)

lemma consistent_reply_started:
  "consistent s \<Longrightarrow> i < length (tasks s) \<Longrightarrow> needs_started (tasks s ! i) \<Longrightarrow> serviceStarted s"
  using nth_mem [of i "tasks s"] by (auto simp add: consistent_def)

lemma consistent_step:
  assumes c: "consistent s"
  shows "consistent (step u a s)"
proof (cases a)
  case (Service_resumes i)
  let ?ok = "service s = Some Fulfilled"
  show ?thesis
  proof (cases "service_resumes ?ok (tasks s ! i) (remove_task i s)")
    case None
    with c Service_resumes show ?thesis by (simp add: step_def)
  next
    case (Some s')
    have "?ok \<longrightarrow> serviceStarted (remove_task i s)"
      using c by (simp add: consistent_started)
    then have "consistent s'"
      using consistent_service_resumes [OF consistent_remove [OF c] _ Some] by blast
    with c Service_resumes Some show ?thesis by (simp add: step_def)
  qed
next
  case (Load_replies i r)
  show ?thesis
  proof (cases "i < length (tasks s)")
    case False
    with c Load_replies show ?thesis by (simp add: step_def)
  next
    case True
    show ?thesis
    proof (cases "tasks s ! i")
      case (EagerlyLoad_awaits_reply c' p)
      with True c have "serviceStarted s"
        using consistent_reply_started [of s i] by simp
      with c True EagerlyLoad_awaits_reply Load_replies show ?thesis
        by (simp add: step_def consistent_eagerlyLoad_reply consistent_remove)
    qed (use c True Load_replies in \<open>simp_all add: step_def\<close>)
  qed
next
  case (Index_replies i ok)
  with c show ?thesis
    by (simp add: step_def consistent_index_reply consistent_remove split: task.splits)
next
  case (Query_replies i r)
  with c show ?thesis
    by (simp add: step_def consistent_query_reply consistent_remove split: task.splits)
qed (use c in \<open>simp_all add: step_def consistent_start consistent_setAccessToken consistent_index
      consistent_load query_def getContext_def consistent_query_from consistent_spawnAndBindService
      consistent_progress\<close>)

lemma consistent_run: "consistent s \<Longrightarrow> consistent (run u acts s)"
  by (induction acts arbitrary: s) (simp_all add: consistent_step)

lemma consistent_init: "consistent createLocalEmbeddingsController"
  by (simp add: consistent_def spawns_def createLocalEmbeddingsController_def)


subsection \<open>The session is created once\<close>

text \<open>
  C1. Whatever the host, the worker and the scheduler do, in whatever order, the worker
  is spawned at most once: it has been spawned once when the field \<^verbatim>\<open>service\<close> is
  set and never before. \<^verbatim>\<open>getService\<close> on an empty field calls \<^verbatim>\<open>spawnBfg\<close> once and
  stores the pending promise; on a field that is set it changes nothing, and so hands
  out the promise that is stored there.
\<close>

theorem getService_spawns_once:
  "spawns (run dotcom_url acts createLocalEmbeddingsController) \<le> 1 \<and>
   spawns (run dotcom_url acts createLocalEmbeddingsController) =
     (if service (run dotcom_url acts createLocalEmbeddingsController) = None then 0 else 1) \<and>
   (service s = None \<longrightarrow>
      service (getService s) = Some Pending \<and> trace (getService s) = trace s @ [Spawn]) \<and>
   (service s \<noteq> None \<longrightarrow> getService s = s)"
proof -
  have "consistent (run dotcom_url acts createLocalEmbeddingsController)"
    by (rule consistent_run [OF consistent_init])
  then have "spawns (run dotcom_url acts createLocalEmbeddingsController) =
     (if service (run dotcom_url acts createLocalEmbeddingsController) = None then 0 else 1)"
    by (simp add: consistent_def)
  then show ?thesis
    by (simp add: getService_def)
qed

theorem getService_spawns_once_witness:
  "spawns (run ''https://sourcegraph.com/''
     [Call_setAccessToken ''https://sourcegraph.com/'' (Some ''token''), Call_load (Some ''/repo''),
      Call_start, Call_query ''q'', Call_getContext ''q'' 5, Spawn_settles Bfg, Call_index, Call_start]
     createLocalEmbeddingsController) = 1 \<and>
   service createLocalEmbeddingsController = None \<and>
   service (getService createLocalEmbeddingsController) = Some Pending \<and>
   trace (getService createLocalEmbeddingsController) = [Spawn] \<and>
   getService (getService createLocalEmbeddingsController) = getService createLocalEmbeddingsController"
proof -
  have a: "service (run ''https://sourcegraph.com/''
     [Call_setAccessToken ''https://sourcegraph.com/'' (Some ''token''), Call_load (Some ''/repo''),
      Call_start, Call_query ''q'', Call_getContext ''q'' 5, Spawn_settles Bfg, Call_index, Call_start]
     createLocalEmbeddingsController) = Some Fulfilled"
    by code_simp
  have b: "service createLocalEmbeddingsController = None"
    by (simp add: createLocalEmbeddingsController_def)
  have c: "service (getService createLocalEmbeddingsController) \<noteq> None"
    by (simp add: b)
  show ?thesis
    using a b c
      getService_spawns_once [of "''https://sourcegraph.com/''"
        "[Call_setAccessToken ''https://sourcegraph.com/'' (Some ''token''), Call_load (Some ''/repo''),
          Call_start, Call_query ''q'', Call_getContext ''q'' 5, Spawn_settles Bfg, Call_index, Call_start]"
        createLocalEmbeddingsController]
      getService_spawns_once [of "''https://sourcegraph.com/''" "[]" "getService createLocalEmbeddingsController"]
    by (simp add: createLocalEmbeddingsController_def)
qed

subsection \<open>index\<close>

text \<open>
  C6. \<^verbatim>\<open>index\<close> does nothing but settle its promise (no task is suspended, no request is
  sent, no field changes) unless the backend is primary, a repository path is cached and
  the cached load result is false; so it does nothing when the cached load result is
  true. When the three conditions hold it goes on to the service for the cached path.
\<close>

theorem index_noop_unless_unloaded:
  "(\<not> may_index (endpointIsDotcom s) (lastRepo s) \<longrightarrow> index s = emit (Settled C_index R_void) s) \<and>
   (lastRepo s = Some (path, True) \<longrightarrow> index s = emit (Settled C_index R_void) s) \<and>
   (may_index (endpointIsDotcom s) (lastRepo s) \<and> lastRepo s = Some (path, r) \<longrightarrow>
      index s = suspend (Index_awaits_service path) (getService s))"
  by (auto simp add: may_index_def index_def truthy_def split: option.splits prod.splits)

theorem index_noop_unless_unloaded_witness:
  "\<not> may_index True (Some (''/repo'', True)) \<and>
   index (createLocalEmbeddingsController\<lparr>endpointIsDotcom := True, lastRepo := Some (''/repo'', True)\<rparr>) =
     emit (Settled C_index R_void)
       (createLocalEmbeddingsController\<lparr>endpointIsDotcom := True, lastRepo := Some (''/repo'', True)\<rparr>) \<and>
   may_index True (Some (''/repo'', False)) \<and>
   index (createLocalEmbeddingsController\<lparr>endpointIsDotcom := True, lastRepo := Some (''/repo'', False)\<rparr>) =
     suspend (Index_awaits_service ''/repo'')
       (getService (createLocalEmbeddingsController\<lparr>endpointIsDotcom := True, lastRepo := Some (''/repo'', False)\<rparr>))"
  using
    index_noop_unless_unloaded [of "createLocalEmbeddingsController\<lparr>endpointIsDotcom := True, lastRepo := Some (''/repo'', True)\<rparr>" "''/repo''" True]
    index_noop_unless_unloaded [of "createLocalEmbeddingsController\<lparr>endpointIsDotcom := True, lastRepo := Some (''/repo'', False)\<rparr>" "''/repo''" False]
  by (simp add: may_index_def)

subsection \<open>query\<close>

text \<open>
  C10. When the backend is not primary, \<^verbatim>\<open>query\<close> resolves with the empty result set
  and does nothing else: the field \<^verbatim>\<open>service\<close> is not touched, so no session is
  created, no task is suspended and no request is sent.
\<close>

theorem query_not_dotcom:
  "\<not> endpointIsDotcom s \<Longrightarrow>
     query q s = emit (Settled C_query (R_results [])) s \<and>
     service (query q s) = service s \<and> tasks (query q s) = tasks s \<and>
     trace (query q s) = trace s @ [Settled C_query (R_results [])]"
  by (simp add: query_def query_from_def call_of_def)

theorem query_not_dotcom_witness:
  "\<not> endpointIsDotcom createLocalEmbeddingsController \<and>
   service (query ''needle'' createLocalEmbeddingsController) = None \<and>
   tasks (query ''needle'' createLocalEmbeddingsController) = [] \<and>
   trace (query ''needle'' createLocalEmbeddingsController) = [Settled C_query (R_results [])]"
proof -
  have h: "\<not> endpointIsDotcom createLocalEmbeddingsController"
    by (simp add: createLocalEmbeddingsController_def)
  show ?thesis
    using h query_not_dotcom [OF h, of "''needle''"]
    by (simp add: createLocalEmbeddingsController_def)
qed

subsection \<open>getContext\<close>

lemma noraise_service_resumes:
  "Settled C_getContext R_error \<notin> set (trace s) \<Longrightarrow> service_resumes ok t s = Some s' \<Longrightarrow>
   Settled C_getContext R_error \<notin> set (trace s')"
  by (cases t)
    (auto simp add: service_resumes_def start_resume_def eagerlyLoad_def setAccessToken_resume_def
      index_resume_def load_resume_def eagerlyLoad_resume_def eagerlyLoad_throws_def query_resume_def
      query_throws_def split: option.splits folders.splits origin.splits caller.splits if_splits)

lemma noraise_setAccessToken:
  "Settled C_getContext R_error \<notin> set (trace s) \<Longrightarrow>
   Settled C_getContext R_error \<notin> set (trace (setAccessToken u e t s))"
  by (simp add: setAccessToken_def Let_def split: option.splits)

lemma noraise_progress:
  "Settled C_getContext R_error \<notin> set (trace s) \<Longrightarrow>
   Settled C_getContext R_error \<notin> set (trace (progress obj s))"
  by (simp add: progress_def Let_def eagerlyLoad_def split: option.splits payload.splits prod.splits)

lemma noraise_step:
  assumes n: "Settled C_getContext R_error \<notin> set (trace s)"
  shows "Settled C_getContext R_error \<notin> set (trace (step u a s))"
proof (cases a)
  case (Service_resumes i)
  show ?thesis
  proof (cases "service_resumes (service s = Some Fulfilled) (tasks s ! i) (remove_task i s)")
    case None
    with n Service_resumes show ?thesis by (simp add: step_def)
  next
    case (Some s')
    with n have "Settled C_getContext R_error \<notin> set (trace s')"
      using noraise_service_resumes [of "remove_task i s" _ _ s'] by simp
    with n Service_resumes Some show ?thesis by (simp add: step_def)
  qed
next
  case (Call_setAccessToken e t)
  with n show ?thesis by (simp add: step_def noraise_setAccessToken)
next
  case (Notify obj)
  with n show ?thesis by (simp add: step_def noraise_progress)
qed (use n in \<open>auto simp add: step_def start_def index_def load_def load_uncached_def eagerlyLoad_def
      query_def getContext_def query_from_def call_of_def spawnAndBindService_def Let_def
      index_reply_def eagerlyLoad_reply_def eagerlyLoad_throws_def query_reply_def query_throws_def
      split: option.splits prod.splits task.splits spawn_result.splits origin.splits caller.splits if_splits\<close>)

lemma noraise_run:
  "Settled C_getContext R_error \<notin> set (trace s) \<Longrightarrow>
   Settled C_getContext R_error \<notin> set (trace (run u acts s))"
  by (induction acts arbitrary: s) (simp_all add: noraise_step)

text \<open>
  C8. \<^verbatim>\<open>getContext\<close> never raises: in no run does the promise of \<^verbatim>\<open>getContext\<close>
  reject. When the worker rejects the query, and when the promise of the service is
  rejected, the suspended \<^verbatim>\<open>getContext\<close> captures the error and resolves with the empty
  list.
\<close>

theorem getContext_never_raises:
  "Settled C_getContext R_error \<notin> set (trace (run dotcom_url acts createLocalEmbeddingsController)) \<and>
   (i < length (tasks s) \<and> tasks s ! i = Query_awaits_reply Via_getContext q \<longrightarrow>
      step dotcom_url (Query_replies i None) s =
        emit (Settled C_getContext (R_results [])) (emit CaptureException (remove_task i s))) \<and>
   (i < length (tasks s) \<and> tasks s ! i = Query_awaits_service Via_getContext q \<and>
    service s = Some Rejected \<longrightarrow>
      step dotcom_url (Service_resumes i) s =
        emit (Settled C_getContext (R_results [])) (emit CaptureException (remove_task i s)))"
proof -
  have "Settled C_getContext R_error \<notin> set (trace createLocalEmbeddingsController)"
    by (simp add: createLocalEmbeddingsController_def)
  then have "Settled C_getContext R_error \<notin> set (trace (run dotcom_url acts createLocalEmbeddingsController))"
    by (rule noraise_run)
  then show ?thesis
    by (simp add: step_def service_resumes_def query_reply_def query_resume_def query_throws_def)
qed


theorem getContext_never_raises_witness:
  "tasks (run ''u'' [Call_setAccessToken ''u'' None, Call_getContext ''needle'' 3,
      Spawn_settles Spawn_rejected] createLocalEmbeddingsController) ! 0 =
     Query_awaits_service Via_getContext ''needle'' \<and>
   service (run ''u'' [Call_setAccessToken ''u'' None, Call_getContext ''needle'' 3,
      Spawn_settles Spawn_rejected] createLocalEmbeddingsController) = Some Rejected \<and>
   step ''u'' (Service_resumes 0)
     (run ''u'' [Call_setAccessToken ''u'' None, Call_getContext ''needle'' 3,
        Spawn_settles Spawn_rejected] createLocalEmbeddingsController) =
     emit (Settled C_getContext (R_results []))
       (emit CaptureException
          (remove_task 0 (run ''u'' [Call_setAccessToken ''u'' None, Call_getContext ''needle'' 3,
             Spawn_settles Spawn_rejected] createLocalEmbeddingsController))) \<and>
   tasks (run ''u'' [Call_setAccessToken ''u'' None, Call_getContext ''needle'' 3,
      Spawn_settles Bfg, Service_resumes 0] createLocalEmbeddingsController) ! 0 =
     Query_awaits_reply Via_getContext ''needle'' \<and>
   step ''u'' (Query_replies 0 None)
     (run ''u'' [Call_setAccessToken ''u'' None, Call_getContext ''needle'' 3,
        Spawn_settles Bfg, Service_resumes 0] createLocalEmbeddingsController) =
     emit (Settled C_getContext (R_results []))
       (emit CaptureException
          (remove_task 0 (run ''u'' [Call_setAccessToken ''u'' None, Call_getContext ''needle'' 3,
             Spawn_settles Bfg, Service_resumes 0] createLocalEmbeddingsController)))"
proof -
  let ?rejected = "run ''u'' [Call_setAccessToken ''u'' None, Call_getContext ''needle'' 3,
      Spawn_settles Spawn_rejected] createLocalEmbeddingsController"
  let ?asked = "run ''u'' [Call_setAccessToken ''u'' None, Call_getContext ''needle'' 3,
      Spawn_settles Bfg, Service_resumes 0] createLocalEmbeddingsController"
  have a: "0 < length (tasks ?rejected) \<and>
      tasks ?rejected ! 0 = Query_awaits_service Via_getContext ''needle'' \<and>
      service ?rejected = Some Rejected"
    by code_simp
  have b: "0 < length (tasks ?asked) \<and> tasks ?asked ! 0 = Query_awaits_reply Via_getContext ''needle''"
    by code_simp
  show ?thesis
    using a b
      getContext_never_raises [of "''u''" "[]" 0 "?rejected" "''needle''"]
      getContext_never_raises [of "''u''" "[]" 0 "?asked" "''needle''"]
    by blast
qed

subsection \<open>load\<close>

text \<open>
  C4. In every state the controller can reach: when the backend is not primary or no
  path is given, \<^verbatim>\<open>load\<close> resolves with false and does nothing else. Otherwise, when the
  service has not started, \<^verbatim>\<open>load\<close> calls \<^verbatim>\<open>getService\<close>, so the field \<^verbatim>\<open>service\<close>
  is set, and resolves with false at once; when the promise of the service is then
  rejected, the detached task only captures the error, and nothing is thrown to the
  caller of \<^verbatim>\<open>load\<close>.
\<close>

theorem load_fails_closed:
  "(\<not> endpointIsDotcom s \<or> repoUri = None \<or> repoUri = Some [] \<longrightarrow>
      load repoUri s = emit (Settled C_load (R_bool False)) s) \<and>
   (endpointIsDotcom (run dotcom_url acts createLocalEmbeddingsController) \<and> repoPath \<noteq> [] \<and>
    \<not> serviceStarted (run dotcom_url acts createLocalEmbeddingsController) \<longrightarrow>
      load (Some repoPath) (run dotcom_url acts createLocalEmbeddingsController) =
        emit (Settled C_load (R_bool False))
          (suspend Load_awaits_service
             (getService (run dotcom_url acts createLocalEmbeddingsController))) \<and>
      service (load (Some repoPath) (run dotcom_url acts createLocalEmbeddingsController)) \<noteq> None) \<and>
   (i < length (tasks s) \<and> tasks s ! i = Load_awaits_service \<and> service s = Some Rejected \<longrightarrow>
      step dotcom_url (Service_resumes i) s = emit CaptureException (remove_task i s))"
proof -
  let ?r = "run dotcom_url acts createLocalEmbeddingsController"
  have "consistent ?r"
    by (rule consistent_run [OF consistent_init])
  then have cached: "lastRepo ?r \<noteq> None \<longrightarrow> serviceStarted ?r"
    by (auto simp add: consistent_def)
  have closed: "\<not> endpointIsDotcom s \<or> repoUri = None \<or> repoUri = Some [] \<longrightarrow>
      load repoUri s = emit (Settled C_load (R_bool False)) s"
    by (auto simp add: load_def truthy_def)
  have early: "endpointIsDotcom ?r \<and> repoPath \<noteq> [] \<and> \<not> serviceStarted ?r \<longrightarrow>
      load (Some repoPath) ?r =
        emit (Settled C_load (R_bool False)) (suspend Load_awaits_service (getService ?r)) \<and>
      service (load (Some repoPath) ?r) \<noteq> None"
    using cached by (cases "lastRepo ?r") (auto simp add: load_def load_uncached_def truthy_def)
  have swallowed: "i < length (tasks s) \<and> tasks s ! i = Load_awaits_service \<and> service s = Some Rejected \<longrightarrow>
      step dotcom_url (Service_resumes i) s = emit CaptureException (remove_task i s)"
    by (simp add: step_def service_resumes_def load_resume_def)
  from closed early swallowed show ?thesis by blast
qed

theorem load_fails_closed_witness:
  "load None (run ''u'' [Call_setAccessToken ''u'' None] createLocalEmbeddingsController) =
     emit (Settled C_load (R_bool False))
       (run ''u'' [Call_setAccessToken ''u'' None] createLocalEmbeddingsController) \<and>
   endpointIsDotcom (run ''u'' [Call_setAccessToken ''u'' None] createLocalEmbeddingsController) \<and>
   \<not> serviceStarted (run ''u'' [Call_setAccessToken ''u'' None] createLocalEmbeddingsController) \<and>
   load (Some ''/repo'') (run ''u'' [Call_setAccessToken ''u'' None] createLocalEmbeddingsController) =
     emit (Settled C_load (R_bool False))
       (suspend Load_awaits_service
          (getService (run ''u'' [Call_setAccessToken ''u'' None] createLocalEmbeddingsController))) \<and>
   tasks (run ''u'' [Call_setAccessToken ''u'' None, Call_load (Some ''/repo''),
      Spawn_settles Spawn_rejected] createLocalEmbeddingsController) ! 0 = Load_awaits_service \<and>
   service (run ''u'' [Call_setAccessToken ''u'' None, Call_load (Some ''/repo''),
      Spawn_settles Spawn_rejected] createLocalEmbeddingsController) = Some Rejected \<and>
   step ''u'' (Service_resumes 0)
     (run ''u'' [Call_setAccessToken ''u'' None, Call_load (Some ''/repo''),
        Spawn_settles Spawn_rejected] createLocalEmbeddingsController) =
     emit CaptureException
       (remove_task 0 (run ''u'' [Call_setAccessToken ''u'' None, Call_load (Some ''/repo''),
          Spawn_settles Spawn_rejected] createLocalEmbeddingsController))"
proof -
  let ?fresh = "run ''u'' [Call_setAccessToken ''u'' None] createLocalEmbeddingsController"
  let ?failed = "run ''u'' [Call_setAccessToken ''u'' None, Call_load (Some ''/repo''),
      Spawn_settles Spawn_rejected] createLocalEmbeddingsController"
  have a: "endpointIsDotcom ?fresh \<and> \<not> serviceStarted ?fresh"
    by code_simp
  have b: "0 < length (tasks ?failed) \<and> tasks ?failed ! 0 = Load_awaits_service \<and>
      service ?failed = Some Rejected"
    by code_simp
  have c: "''/repo'' \<noteq> []"
    by simp
  show ?thesis
    using a b c
      load_fails_closed [where s = ?fresh and repoUri = None and dotcom_url = "''u''"
        and acts = "[Call_setAccessToken ''u'' None]" and repoPath = "''/repo''" and i = 0]
      load_fails_closed [where s = ?failed and repoUri = None and dotcom_url = "''u''"
        and acts = "[Call_setAccessToken ''u'' None]" and repoPath = "''/repo''" and i = 0]
    by simp
qed

subsection \<open>status\<close>




subsection \<open>The Done notification\<close>

text \<open>
  C2 as stated fails: the handler returns at once when there is no status bar item, so a
  \<^verbatim>\<open>Done\<close> that arrives while no item exists fires nothing. Here the service is bound,
  no indexing was started, and the notification leaves the controller as it was.
\<close>

theorem done_without_status_bar_counterexample:
  "serviceStarted (run ''u'' [Call_start, Spawn_settles Bfg] createLocalEmbeddingsController) \<and>
   step ''u'' (Notify Done) (run ''u'' [Call_start, Spawn_settles Bfg] createLocalEmbeddingsController) =
     run ''u'' [Call_start, Spawn_settles Bfg] createLocalEmbeddingsController \<and>
   status_events (trace (run ''u'' [Call_start, Spawn_settles Bfg, Notify Done]
     createLocalEmbeddingsController)) = 0"
  by code_simp

text \<open>
  C2, amended. On a \<^verbatim>\<open>Done\<close> that arrives while the service is bound and the status
  bar item exists: \<^verbatim>\<open>pathBeingIndexed\<close> is cleared and the status event is fired once
  by the handler, whether or not a load is issued. When the path being indexed is not
  empty and is the cached path (or nothing is cached), a load for it is issued, and
  when the worker answers, the answer is cached and the status event and then the change
  event are fired. When another path is cached, nothing is issued.
\<close>

theorem done_notification_with_status_bar:
  assumes "statusBar s \<noteq> None" and "serviceStarted s" and "service s = Some Fulfilled"
  shows
    "pathBeingIndexed (step u (Notify Done) s) = None \<and>
     status_events (trace (step u (Notify Done) s)) = status_events (trace s) + 1 \<and>
     (pathBeingIndexed s = Some path \<and> path \<noteq> [] \<and>
      (lastRepo s = None \<or> lastRepo s = Some (path, r)) \<longrightarrow>
        lastRepo (run u [Notify Done, Service_resumes (length (tasks s)),
                         Load_replies (length (tasks s)) (Some b)] s) = Some (path, b) \<and>
        pathBeingIndexed (run u [Notify Done, Service_resumes (length (tasks s)),
                         Load_replies (length (tasks s)) (Some b)] s) = None \<and>
        trace (run u [Notify Done, Service_resumes (length (tasks s)),
                      Load_replies (length (tasks s)) (Some b)] s) =
          trace s @
          [FireStatus \<lparr>v_endpointIsDotcom = endpointIsDotcom s, v_lastRepo = lastRepo s,
                       v_pathBeingIndexed = None\<rparr>,
           Request (Load_repo path),
           FireStatus \<lparr>v_endpointIsDotcom = endpointIsDotcom s, v_lastRepo = Some (path, b),
                       v_pathBeingIndexed = None\<rparr>,
           FireChange \<lparr>v_endpointIsDotcom = endpointIsDotcom s, v_lastRepo = Some (path, b),
                       v_pathBeingIndexed = None\<rparr>]) \<and>
     (pathBeingIndexed s = Some path \<and> lastRepo s = Some (other, r) \<and> other \<noteq> path \<longrightarrow>
        tasks (step u (Notify Done) s) = tasks s \<and>
        trace (step u (Notify Done) s) =
          trace s @
          [FireStatus \<lparr>v_endpointIsDotcom = endpointIsDotcom s, v_lastRepo = lastRepo s,
                       v_pathBeingIndexed = None\<rparr>])"
proof -
  let ?done = "step u (Notify Done) s"
  let ?n = "length (tasks s)"
  have handler: "?done = progress Done s"
    using assms by (simp add: step_def)
  have cleared: "pathBeingIndexed ?done = None"
    using assms unfolding handler
    by (auto simp add: progress_def Let_def split: option.splits)
  have fired: "status_events (trace ?done) = status_events (trace s) + 1"
    using assms unfolding handler
    by (auto simp add: progress_def Let_def eagerlyLoad_def observe_def split: option.splits prod.splits)
  have reload: "lastRepo (run u [Notify Done, Service_resumes ?n, Load_replies ?n (Some b)] s) = Some (path, b) \<and>
        pathBeingIndexed (run u [Notify Done, Service_resumes ?n, Load_replies ?n (Some b)] s) = None \<and>
        trace (run u [Notify Done, Service_resumes ?n, Load_replies ?n (Some b)] s) =
          trace s @
          [FireStatus \<lparr>v_endpointIsDotcom = endpointIsDotcom s, v_lastRepo = lastRepo s,
                       v_pathBeingIndexed = None\<rparr>,
           Request (Load_repo path),
           FireStatus \<lparr>v_endpointIsDotcom = endpointIsDotcom s, v_lastRepo = Some (path, b),
                       v_pathBeingIndexed = None\<rparr>,
           FireChange \<lparr>v_endpointIsDotcom = endpointIsDotcom s, v_lastRepo = Some (path, b),
                       v_pathBeingIndexed = None\<rparr>]"
    if c: "pathBeingIndexed s = Some path" "path \<noteq> []" "lastRepo s = None \<or> lastRepo s = Some (path, r)"
  proof -
    have d: "?done = fireStatus ((eagerlyLoad From_done path (s\<lparr>statusBar := None\<rparr>))\<lparr>pathBeingIndexed := None\<rparr>)"
      using assms c unfolding handler
      by (auto simp add: progress_def Let_def truthy_def split: option.splits)
    have d_tasks: "tasks ?done = tasks s @ [EagerlyLoad_awaits_service From_done path]"
      and d_service: "service ?done = Some Fulfilled"
      and d_trace: "trace ?done = trace s @ [FireStatus \<lparr>v_endpointIsDotcom = endpointIsDotcom s,
             v_lastRepo = lastRepo s, v_pathBeingIndexed = None\<rparr>]"
      and d_repo: "lastRepo ?done = lastRepo s" and d_dotcom: "endpointIsDotcom ?done = endpointIsDotcom s"
      using assms unfolding d by (simp_all add: eagerlyLoad_def observe_def)
    let ?asked = "step u (Service_resumes ?n) ?done"
    have e: "?asked = eagerlyLoad_resume True From_done path (remove_task ?n ?done)"
      using d_tasks d_service by (simp add: step_Service_resumes service_resumes_def)
    have e_tasks: "tasks ?asked = tasks s @ [EagerlyLoad_awaits_reply From_done path]"
      and e_trace: "trace ?asked = trace ?done @ [Request (Load_repo path)]"
      and e_idle: "pathBeingIndexed ?asked = None" and e_dotcom: "endpointIsDotcom ?asked = endpointIsDotcom s"
      unfolding e using d_tasks cleared d_dotcom by (simp_all add: eagerlyLoad_resume_def)
    let ?loaded = "step u (Load_replies ?n (Some b)) ?asked"
    have f: "?loaded = eagerlyLoad_reply (Some b) From_done path (remove_task ?n ?asked)"
      using e_tasks by (simp add: step_def)
    have "lastRepo ?loaded = Some (path, b) \<and> pathBeingIndexed ?loaded = None \<and>
      trace ?loaded = trace ?asked @
         [FireStatus \<lparr>v_endpointIsDotcom = endpointIsDotcom s, v_lastRepo = Some (path, b),
                       v_pathBeingIndexed = None\<rparr>,
          FireChange \<lparr>v_endpointIsDotcom = endpointIsDotcom s, v_lastRepo = Some (path, b),
                       v_pathBeingIndexed = None\<rparr>]"
      unfolding f using e_idle e_dotcom by (simp add: eagerlyLoad_reply_def observe_def)
    then show ?thesis
      by (simp add: e_trace d_trace)
  qed
  have skipped: "tasks ?done = tasks s \<and>
        trace ?done = trace s @
          [FireStatus \<lparr>v_endpointIsDotcom = endpointIsDotcom s, v_lastRepo = lastRepo s,
                       v_pathBeingIndexed = None\<rparr>]"
    if "pathBeingIndexed s = Some path" "lastRepo s = Some (other, r)" "other \<noteq> path"
    using assms that unfolding handler
    by (auto simp add: progress_def Let_def observe_def split: option.splits)
  from cleared fired reload skipped show ?thesis by blast
qed

theorem done_notification_with_status_bar_witness:
  "statusBar (run ''u'' [Call_setAccessToken ''u'' None, Call_load (Some ''/repo''), Spawn_settles Bfg,
      Service_resumes 0, Call_load (Some ''/repo''), Service_resumes 0, Load_replies 0 (Some False),
      Call_index, Service_resumes 0, Index_replies 0 True] createLocalEmbeddingsController) \<noteq> None \<and>
   pathBeingIndexed (run ''u'' [Call_setAccessToken ''u'' None, Call_load (Some ''/repo''), Spawn_settles Bfg,
      Service_resumes 0, Call_load (Some ''/repo''), Service_resumes 0, Load_replies 0 (Some False),
      Call_index, Service_resumes 0, Index_replies 0 True] createLocalEmbeddingsController) = Some ''/repo'' \<and>
   lastRepo (run ''u'' [Call_setAccessToken ''u'' None, Call_load (Some ''/repo''), Spawn_settles Bfg,
      Service_resumes 0, Call_load (Some ''/repo''), Service_resumes 0, Load_replies 0 (Some False),
      Call_index, Service_resumes 0, Index_replies 0 True] createLocalEmbeddingsController) =
     Some (''/repo'', False) \<and>
   lastRepo (run ''u'' [Notify Done, Service_resumes 0, Load_replies 0 (Some True)]
     (run ''u'' [Call_setAccessToken ''u'' None, Call_load (Some ''/repo''), Spawn_settles Bfg,
        Service_resumes 0, Call_load (Some ''/repo''), Service_resumes 0, Load_replies 0 (Some False),
        Call_index, Service_resumes 0, Index_replies 0 True] createLocalEmbeddingsController)) =
     Some (''/repo'', True) \<and>
   pathBeingIndexed (run ''u'' [Notify Done, Service_resumes 0, Load_replies 0 (Some True)]
     (run ''u'' [Call_setAccessToken ''u'' None, Call_load (Some ''/repo''), Spawn_settles Bfg,
        Service_resumes 0, Call_load (Some ''/repo''), Service_resumes 0, Load_replies 0 (Some False),
        Call_index, Service_resumes 0, Index_replies 0 True] createLocalEmbeddingsController)) = None \<and>
   lastRepo (run ''u'' [Call_setAccessToken ''u'' None, Call_load (Some ''/repo''), Spawn_settles Bfg,
      Service_resumes 0, Call_load (Some ''/repo''), Service_resumes 0, Load_replies 0 (Some False),
      Call_index, Service_resumes 0, Index_replies 0 True,
      Call_load (Some ''/other''), Service_resumes 0, Load_replies 0 (Some False)]
      createLocalEmbeddingsController) = Some (''/other'', False) \<and>
   tasks (step ''u'' (Notify Done)
     (run ''u'' [Call_setAccessToken ''u'' None, Call_load (Some ''/repo''), Spawn_settles Bfg,
        Service_resumes 0, Call_load (Some ''/repo''), Service_resumes 0, Load_replies 0 (Some False),
        Call_index, Service_resumes 0, Index_replies 0 True,
        Call_load (Some ''/other''), Service_resumes 0, Load_replies 0 (Some False)]
        createLocalEmbeddingsController)) = [] \<and>
   pathBeingIndexed (step ''u'' (Notify Done)
     (run ''u'' [Call_setAccessToken ''u'' None, Call_load (Some ''/repo''), Spawn_settles Bfg,
        Service_resumes 0, Call_load (Some ''/repo''), Service_resumes 0, Load_replies 0 (Some False),
        Call_index, Service_resumes 0, Index_replies 0 True,
        Call_load (Some ''/other''), Service_resumes 0, Load_replies 0 (Some False)]
        createLocalEmbeddingsController)) = None"
proof -
  let ?indexing = "run ''u'' [Call_setAccessToken ''u'' None, Call_load (Some ''/repo''), Spawn_settles Bfg,
      Service_resumes 0, Call_load (Some ''/repo''), Service_resumes 0, Load_replies 0 (Some False),
      Call_index, Service_resumes 0, Index_replies 0 True] createLocalEmbeddingsController"
  let ?elsewhere = "run ''u'' [Call_setAccessToken ''u'' None, Call_load (Some ''/repo''), Spawn_settles Bfg,
      Service_resumes 0, Call_load (Some ''/repo''), Service_resumes 0, Load_replies 0 (Some False),
      Call_index, Service_resumes 0, Index_replies 0 True,
      Call_load (Some ''/other''), Service_resumes 0, Load_replies 0 (Some False)]
      createLocalEmbeddingsController"
  have a1: "statusBar ?indexing \<noteq> None" and a2: "serviceStarted ?indexing"
    and a3: "service ?indexing = Some Fulfilled"
    and a4: "pathBeingIndexed ?indexing = Some ''/repo'' \<and> lastRepo ?indexing = Some (''/repo'', False) \<and>
      tasks ?indexing = []"
    by code_simp+
  have b1: "statusBar ?elsewhere \<noteq> None" and b2: "serviceStarted ?elsewhere"
    and b3: "service ?elsewhere = Some Fulfilled"
    and b4: "pathBeingIndexed ?elsewhere = Some ''/repo'' \<and> lastRepo ?elsewhere = Some (''/other'', False) \<and>
      tasks ?elsewhere = []"
    by code_simp+
  show ?thesis
    using a1 a4 b4
      done_notification_with_status_bar [OF a1 a2 a3, of "''u''" "''/repo''" False True "''/other''"]
      done_notification_with_status_bar [OF b1 b2 b3, of "''u''" "''/repo''" False True "''/other''"]
    by simp
qed

subsection \<open>load twice\<close>

text \<open>
  C3 as stated fails: with a primary backend and a service that has not started, two
  calls of \<^verbatim>\<open>load\<close> for the same path in a row spawn the worker and both resolve with
  false; no \<^verbatim>\<open>embeddings/load\<close> request is sent at all.
\<close>

theorem load_twice_cold_counterexample:
  "endpointIsDotcom (run ''u'' [Call_setAccessToken ''u'' None] createLocalEmbeddingsController) \<and>
   trace (run ''u'' [Call_load (Some ''/repo''), Call_load (Some ''/repo'')]
     (run ''u'' [Call_setAccessToken ''u'' None] createLocalEmbeddingsController)) =
     trace (run ''u'' [Call_setAccessToken ''u'' None] createLocalEmbeddingsController) @
     [Spawn, Settled C_load (R_bool False), Settled C_load (R_bool False)]"
  by code_simp

text \<open>
  C3, amended. With a primary backend, a bound service and a path that is not empty:
  when the path is not cached, \<^verbatim>\<open>load\<close> called twice in a row, the worker answering the
  first call, sends one \<^verbatim>\<open>embeddings/load\<close> request, and the second call resolves with
  the answer cached by the first and does nothing else; when the path is cached, both
  calls resolve with the cached result and do nothing else.
\<close>

theorem load_twice_one_round_trip:
  assumes "endpointIsDotcom s" and "serviceStarted s" and "service s = Some Fulfilled"
    and "repoPath \<noteq> []"
  shows
    "((\<forall>r. lastRepo s \<noteq> Some (repoPath, r)) \<longrightarrow>
        trace (run u [Call_load (Some repoPath), Service_resumes (length (tasks s)),
                      Load_replies (length (tasks s)) (Some b), Call_load (Some repoPath)] s) =
          trace s @
          [Request (Load_repo repoPath),
           FireStatus \<lparr>v_endpointIsDotcom = True, v_lastRepo = Some (repoPath, b),
                       v_pathBeingIndexed = pathBeingIndexed s\<rparr>,
           Settled C_load (R_bool b), Settled C_load (R_bool b)] \<and>
        lastRepo (run u [Call_load (Some repoPath), Service_resumes (length (tasks s)),
                      Load_replies (length (tasks s)) (Some b), Call_load (Some repoPath)] s) =
          Some (repoPath, b)) \<and>
     (lastRepo s = Some (repoPath, r) \<longrightarrow>
        run u [Call_load (Some repoPath), Call_load (Some repoPath)] s =
          emit (Settled C_load (R_bool r)) (emit (Settled C_load (R_bool r)) s))"
proof -
  let ?n = "length (tasks s)"
  have cached: "run u [Call_load (Some repoPath), Call_load (Some repoPath)] s =
      emit (Settled C_load (R_bool r)) (emit (Settled C_load (R_bool r)) s)"
    if "lastRepo s = Some (repoPath, r)"
    using assms that by (simp add: step_def load_def truthy_def)
  have fresh: "trace (run u [Call_load (Some repoPath), Service_resumes ?n,
                      Load_replies ?n (Some b), Call_load (Some repoPath)] s) =
          trace s @
          [Request (Load_repo repoPath),
           FireStatus \<lparr>v_endpointIsDotcom = True, v_lastRepo = Some (repoPath, b),
                       v_pathBeingIndexed = pathBeingIndexed s\<rparr>,
           Settled C_load (R_bool b), Settled C_load (R_bool b)] \<and>
        lastRepo (run u [Call_load (Some repoPath), Service_resumes ?n,
                      Load_replies ?n (Some b), Call_load (Some repoPath)] s) = Some (repoPath, b)"
    if miss: "\<forall>r. lastRepo s \<noteq> Some (repoPath, r)"
  proof -
    let ?called = "step u (Call_load (Some repoPath)) s"
    have c: "?called = eagerlyLoad From_load repoPath s"
      using assms miss by (cases "lastRepo s") (auto simp add: step_def load_def load_uncached_def truthy_def)
    have c_tasks: "tasks ?called = tasks s @ [EagerlyLoad_awaits_service From_load repoPath]"
      and c_service: "service ?called = Some Fulfilled" and c_trace: "trace ?called = trace s"
      and c_dotcom: "endpointIsDotcom ?called" and c_idx: "pathBeingIndexed ?called = pathBeingIndexed s"
      unfolding c using assms by (simp_all add: eagerlyLoad_def)
    let ?asked = "step u (Service_resumes ?n) ?called"
    have d: "?asked = eagerlyLoad_resume True From_load repoPath (remove_task ?n ?called)"
      using c_tasks c_service by (simp add: step_Service_resumes service_resumes_def)
    have d_tasks: "tasks ?asked = tasks s @ [EagerlyLoad_awaits_reply From_load repoPath]"
      and d_trace: "trace ?asked = trace s @ [Request (Load_repo repoPath)]"
      and d_dotcom: "endpointIsDotcom ?asked" and d_idx: "pathBeingIndexed ?asked = pathBeingIndexed s"
      unfolding d using c_tasks c_trace c_dotcom c_idx by (simp_all add: eagerlyLoad_resume_def)
    let ?loaded = "step u (Load_replies ?n (Some b)) ?asked"
    have e: "?loaded = eagerlyLoad_reply (Some b) From_load repoPath (remove_task ?n ?asked)"
      using d_tasks by (simp add: step_def)
    have e_repo: "lastRepo ?loaded = Some (repoPath, b)" and e_dotcom: "endpointIsDotcom ?loaded"
      and e_trace: "trace ?loaded = trace s @
          [Request (Load_repo repoPath),
           FireStatus \<lparr>v_endpointIsDotcom = True, v_lastRepo = Some (repoPath, b),
                       v_pathBeingIndexed = pathBeingIndexed s\<rparr>,
           Settled C_load (R_bool b)]"
      unfolding e using d_trace d_dotcom d_idx by (simp_all add: eagerlyLoad_reply_def observe_def)
    have "step u (Call_load (Some repoPath)) ?loaded = emit (Settled C_load (R_bool b)) ?loaded"
      using e_repo e_dotcom assms by (simp add: step_def load_def truthy_def)
    then show ?thesis
      by (simp add: e_repo e_trace)
  qed
  from cached fresh show ?thesis by blast
qed

theorem load_twice_one_round_trip_witness:
  "endpointIsDotcom (run ''u'' [Call_setAccessToken ''u'' None, Call_start, Spawn_settles Bfg,
      Service_resumes 0] createLocalEmbeddingsController) \<and>
   lastRepo (run ''u'' [Call_setAccessToken ''u'' None, Call_start, Spawn_settles Bfg,
      Service_resumes 0] createLocalEmbeddingsController) = None \<and>
   trace (run ''u'' [Call_load (Some ''/repo''), Service_resumes 0, Load_replies 0 (Some True),
                     Call_load (Some ''/repo'')]
     (run ''u'' [Call_setAccessToken ''u'' None, Call_start, Spawn_settles Bfg,
        Service_resumes 0] createLocalEmbeddingsController)) =
     trace (run ''u'' [Call_setAccessToken ''u'' None, Call_start, Spawn_settles Bfg,
        Service_resumes 0] createLocalEmbeddingsController) @
     [Request (Load_repo ''/repo''),
      FireStatus \<lparr>v_endpointIsDotcom = True, v_lastRepo = Some (''/repo'', True),
                  v_pathBeingIndexed = None\<rparr>,
      Settled C_load (R_bool True), Settled C_load (R_bool True)] \<and>
   lastRepo (run ''u'' [Call_setAccessToken ''u'' None, Call_start, Spawn_settles Bfg,
      Service_resumes 0, Call_load (Some ''/repo''), Service_resumes 0, Load_replies 0 (Some True)]
      createLocalEmbeddingsController) = Some (''/repo'', True) \<and>
   trace (run ''u'' [Call_load (Some ''/repo''), Call_load (Some ''/repo'')]
     (run ''u'' [Call_setAccessToken ''u'' None, Call_start, Spawn_settles Bfg,
        Service_resumes 0, Call_load (Some ''/repo''), Service_resumes 0, Load_replies 0 (Some True)]
        createLocalEmbeddingsController)) =
     trace (run ''u'' [Call_setAccessToken ''u'' None, Call_start, Spawn_settles Bfg,
        Service_resumes 0, Call_load (Some ''/repo''), Service_resumes 0, Load_replies 0 (Some True)]
        createLocalEmbeddingsController) @
     [Settled C_load (R_bool True), Settled C_load (R_bool True)]"
proof -
  let ?bound = "run ''u'' [Call_setAccessToken ''u'' None, Call_start, Spawn_settles Bfg,
      Service_resumes 0] createLocalEmbeddingsController"
  let ?loaded = "run ''u'' [Call_setAccessToken ''u'' None, Call_start, Spawn_settles Bfg,
      Service_resumes 0, Call_load (Some ''/repo''), Service_resumes 0, Load_replies 0 (Some True)]
      createLocalEmbeddingsController"
  have a1: "endpointIsDotcom ?bound" and a2: "serviceStarted ?bound"
    and a3: "service ?bound = Some Fulfilled"
    and a4: "lastRepo ?bound = None \<and> tasks ?bound = [] \<and> pathBeingIndexed ?bound = None"
    by code_simp+
  have b1: "endpointIsDotcom ?loaded" and b2: "serviceStarted ?loaded"
    and b3: "service ?loaded = Some Fulfilled"
    and b4: "lastRepo ?loaded = Some (''/repo'', True)"
    by code_simp+
  have p: "''/repo'' \<noteq> []"
    by simp
  show ?thesis
    using a1 a4 b4
      load_twice_one_round_trip [OF a1 a2 a3 p, of "''u''" True True]
      load_twice_one_round_trip [OF b1 b2 b3 p, of "''u''" True True]
    by simp
qed

subsection \<open>setAccessToken\<close>

text \<open>
  C7 as stated fails: with a bound service that was given a token, \<^verbatim>\<open>setAccessToken\<close>
  with \<^verbatim>\<open>null\<close> drops the token of the controller and sends nothing to the worker.
\<close>

theorem setAccessToken_sign_out_counterexample:
  "serviceStarted (run ''u'' [Call_setAccessToken ''u'' (Some ''token''), Call_start, Spawn_settles Bfg]
     createLocalEmbeddingsController) \<and>
   accessToken (run ''u'' [Call_setAccessToken ''u'' (Some ''token''), Call_start, Spawn_settles Bfg]
     createLocalEmbeddingsController) = Some ''token'' \<and>
   setAccessToken ''u'' ''u'' None
     (run ''u'' [Call_setAccessToken ''u'' (Some ''token''), Call_start, Spawn_settles Bfg]
        createLocalEmbeddingsController) =
     emit (Settled C_setAccessToken R_void)
       ((run ''u'' [Call_setAccessToken ''u'' (Some ''token''), Call_start, Spawn_settles Bfg]
          createLocalEmbeddingsController)\<lparr>accessToken := None\<rparr>)"
  by code_simp

text \<open>
  C7, amended. \<^verbatim>\<open>setAccessToken\<close> fires the status event once when the backend flag
  changes and not at all when it does not, whatever the token; the flag is then the
  comparison of the endpoint with the dotcom URL. When the service is bound and the
  token is a non-empty string other than the one held, the token is stored and sent to
  the worker with \<^verbatim>\<open>embeddings/set-token\<close>.
\<close>

theorem setAccessToken_forwards_token:
  "status_events (trace (setAccessToken dotcom_url serverEndpoint token s)) =
     status_events (trace s) + (if (serverEndpoint = dotcom_url) \<noteq> endpointIsDotcom s then 1 else 0) \<and>
   endpointIsDotcom (setAccessToken dotcom_url serverEndpoint token s) = (serverEndpoint = dotcom_url) \<and>
   (serviceStarted s \<and> service s = Some Fulfilled \<and> token = Some t \<and> t \<noteq> [] \<and>
    accessToken s \<noteq> Some t \<longrightarrow>
      accessToken (run dotcom_url [Call_setAccessToken serverEndpoint token,
                                   Service_resumes (length (tasks s))] s) = Some t \<and>
      trace (run dotcom_url [Call_setAccessToken serverEndpoint token,
                             Service_resumes (length (tasks s))] s) =
        trace s @
        (if (serverEndpoint = dotcom_url) \<noteq> endpointIsDotcom s
         then [FireStatus (observe s), FireChange (observe s)] else []) @
        [Request (Set_token t), Settled C_setAccessToken R_void])"
proof -
  let ?set = "setAccessToken dotcom_url serverEndpoint token s"
  let ?n = "length (tasks s)"
  have events: "status_events (trace ?set) =
     status_events (trace s) + (if (serverEndpoint = dotcom_url) \<noteq> endpointIsDotcom s then 1 else 0)"
    by (simp add: setAccessToken_def Let_def split: option.splits)
  have flag: "endpointIsDotcom ?set = (serverEndpoint = dotcom_url)"
    by (simp add: setAccessToken_def Let_def split: option.splits)
  have forward: "accessToken (run dotcom_url [Call_setAccessToken serverEndpoint token, Service_resumes ?n] s) = Some t \<and>
      trace (run dotcom_url [Call_setAccessToken serverEndpoint token, Service_resumes ?n] s) =
        trace s @
        (if (serverEndpoint = dotcom_url) \<noteq> endpointIsDotcom s
         then [FireStatus (observe s), FireChange (observe s)] else []) @
        [Request (Set_token t), Settled C_setAccessToken R_void]"
    if h: "serviceStarted s" "service s = Some Fulfilled" "token = Some t" "t \<noteq> []" "accessToken s \<noteq> Some t"
  proof -
    have a_tasks: "tasks ?set = tasks s @ [SetAccessToken_awaits_service t]"
      and a_service: "service ?set = Some Fulfilled"
      and a_token: "accessToken ?set = Some t"
      and a_trace: "trace ?set = trace s @
        (if (serverEndpoint = dotcom_url) \<noteq> endpointIsDotcom s
         then [FireStatus (observe s), FireChange (observe s)] else [])"
      using h by (auto simp add: setAccessToken_def Let_def same_token_def truthy_def observe_def
          split: option.splits)
    let ?sent = "step dotcom_url (Service_resumes ?n) ?set"
    have "?sent = setAccessToken_resume True t (remove_task ?n ?set)"
      using a_tasks a_service by (simp add: step_Service_resumes service_resumes_def)
    then have "accessToken ?sent = Some t \<and>
      trace ?sent = trace ?set @ [Request (Set_token t), Settled C_setAccessToken R_void]"
      using a_token by (simp add: setAccessToken_resume_def)
    then show ?thesis
      by (simp add: step_def [of _ "Call_setAccessToken _ _"] a_trace)
  qed
  from events flag forward show ?thesis by blast
qed

theorem setAccessToken_forwards_token_witness:
  "serviceStarted (run ''u'' [Call_start, Spawn_settles Bfg, Service_resumes 0]
     createLocalEmbeddingsController) \<and>
   accessToken (run ''u'' [Call_start, Spawn_settles Bfg, Service_resumes 0]
     createLocalEmbeddingsController) = None \<and>
   status_events (trace (setAccessToken ''u'' ''u'' (Some ''token'')
     (run ''u'' [Call_start, Spawn_settles Bfg, Service_resumes 0] createLocalEmbeddingsController))) =
     status_events (trace (run ''u'' [Call_start, Spawn_settles Bfg, Service_resumes 0]
       createLocalEmbeddingsController)) + 1 \<and>
   trace (run ''u'' [Call_setAccessToken ''u'' (Some ''token''), Service_resumes 0]
     (run ''u'' [Call_start, Spawn_settles Bfg, Service_resumes 0] createLocalEmbeddingsController)) =
     trace (run ''u'' [Call_start, Spawn_settles Bfg, Service_resumes 0]
       createLocalEmbeddingsController) @
     [FireStatus \<lparr>v_endpointIsDotcom = False, v_lastRepo = None, v_pathBeingIndexed = None\<rparr>,
      FireChange \<lparr>v_endpointIsDotcom = False, v_lastRepo = None, v_pathBeingIndexed = None\<rparr>,
      Request (Set_token ''token''), Settled C_setAccessToken R_void]"
proof -
  let ?bound = "run ''u'' [Call_start, Spawn_settles Bfg, Service_resumes 0]
     createLocalEmbeddingsController"
  have a: "serviceStarted ?bound \<and> service ?bound = Some Fulfilled \<and> accessToken ?bound = None \<and>
      tasks ?bound = [] \<and> \<not> endpointIsDotcom ?bound \<and> lastRepo ?bound = None \<and>
      pathBeingIndexed ?bound = None"
    by code_simp
  show ?thesis
    using a setAccessToken_forwards_token [of "''u''" "''u''" "Some ''token''" ?bound "''token''"]
    by (simp add: observe_def)
qed

subsection \<open>The change event after indexing\<close>

lemma shows_indexing_simps [simp]:
  "shows_indexing (FireChange v) = (v_pathBeingIndexed v \<noteq> None)"
  "shows_indexing (FireStatus v) = False" "shows_indexing Spawn = False"
  "shows_indexing RegisterNotification = False" "shows_indexing (Request q) = False"
  "shows_indexing CaptureException = False" "shows_indexing ShowInformationMessage = False"
  "shows_indexing (Settled c r) = False"
  by (simp_all add: shows_indexing_def)

lemma is_change_simps [simp]:
  "is_change (FireChange v) = True" "is_change (FireStatus v) = False" "is_change Spawn = False"
  "is_change RegisterNotification = False" "is_change (Request q) = False"
  "is_change CaptureException = False" "is_change ShowInformationMessage = False"
  "is_change (Settled c r) = False"
  by (simp_all add: is_change_def)

lemma changes_while_indexing_simps [simp]:
  "changes_while_indexing (emit e s) = changes_while_indexing s + (if shows_indexing e then 1 else 0)"
  "changes_while_indexing (suspend t s) = changes_while_indexing s"
  "changes_while_indexing (fireStatus s) = changes_while_indexing s"
  "changes_while_indexing (fireChange s) =
     changes_while_indexing s + (if pathBeingIndexed s \<noteq> None then 1 else 0)"
  "changes_while_indexing (remove_task i s) = changes_while_indexing s"
  "changes_while_indexing (getService s) = changes_while_indexing s"
  by (simp_all add: changes_while_indexing_def observe_def)

lemma changes_while_indexing_update [simp]:
  "changes_while_indexing (s\<lparr>service := a\<rparr>) = changes_while_indexing s"
  "changes_while_indexing (s\<lparr>serviceStarted := b\<rparr>) = changes_while_indexing s"
  "changes_while_indexing (s\<lparr>accessToken := c\<rparr>) = changes_while_indexing s"
  "changes_while_indexing (s\<lparr>endpointIsDotcom := d\<rparr>) = changes_while_indexing s"
  "changes_while_indexing (s\<lparr>statusBar := e\<rparr>) = changes_while_indexing s"
  "changes_while_indexing (s\<lparr>lastRepo := f\<rparr>) = changes_while_indexing s"
  "changes_while_indexing (s\<lparr>pathBeingIndexed := g\<rparr>) = changes_while_indexing s"
  "changes_while_indexing (s\<lparr>workspaceFolders := h\<rparr>) = changes_while_indexing s"
  "changes_while_indexing (s\<lparr>tasks := k\<rparr>) = changes_while_indexing s"
  by (simp_all add: changes_while_indexing_def)

lemma idle_service_resumes:
  "pathBeingIndexed s = None \<Longrightarrow> service_resumes ok t s = Some s' \<Longrightarrow>
   pathBeingIndexed s' = None \<and> changes_while_indexing s' = changes_while_indexing s"
  by (cases t)
    (auto simp add: service_resumes_def start_resume_def eagerlyLoad_def setAccessToken_resume_def
      index_resume_def load_resume_def eagerlyLoad_resume_def eagerlyLoad_throws_def query_resume_def
      query_throws_def split: option.splits folders.splits origin.splits caller.splits if_splits)

lemma idle_setAccessToken:
  "pathBeingIndexed s = None \<Longrightarrow>
   pathBeingIndexed (setAccessToken u e t s) = None \<and>
   changes_while_indexing (setAccessToken u e t s) = changes_while_indexing s"
  by (simp add: setAccessToken_def Let_def split: option.splits)

lemma idle_progress:
  "pathBeingIndexed s = None \<Longrightarrow>
   pathBeingIndexed (progress obj s) = None \<and>
   changes_while_indexing (progress obj s) = changes_while_indexing s"
  by (simp add: progress_def Let_def split: option.splits payload.splits)

lemma idle_eagerlyLoad_reply:
  "pathBeingIndexed s = None \<Longrightarrow>
   pathBeingIndexed (eagerlyLoad_reply r c p s) = None \<and>
   changes_while_indexing (eagerlyLoad_reply r c p s) = changes_while_indexing s"
  by (cases r; cases c) (simp_all add: eagerlyLoad_reply_def eagerlyLoad_throws_def)

lemma idle_spawnAndBindService:
  "pathBeingIndexed s = None \<Longrightarrow>
   pathBeingIndexed (spawnAndBindService r s) = None \<and>
   changes_while_indexing (spawnAndBindService r s) = changes_while_indexing s"
  by (cases r; cases "accessToken s") (simp_all add: spawnAndBindService_def Let_def)

lemma idle_load:
  "pathBeingIndexed s = None \<Longrightarrow>
   pathBeingIndexed (load u s) = None \<and> changes_while_indexing (load u s) = changes_while_indexing s"
  by (simp add: load_def load_uncached_def eagerlyLoad_def split: option.splits prod.splits)

lemma idle_step:
  assumes n: "pathBeingIndexed s = None" and a: "\<forall>i. a \<noteq> Index_replies i True"
  shows "pathBeingIndexed (step u a s) = None \<and>
         changes_while_indexing (step u a s) = changes_while_indexing s"
proof (cases a)
  case (Service_resumes i)
  show ?thesis
  proof (cases "service_resumes (service s = Some Fulfilled) (tasks s ! i) (remove_task i s)")
    case None
    with n Service_resumes show ?thesis by (simp add: step_def)
  next
    case (Some s')
    with n have "pathBeingIndexed s' = None \<and> changes_while_indexing s' = changes_while_indexing s"
      using idle_service_resumes [of "remove_task i s" _ _ s'] by simp
    with n Service_resumes Some show ?thesis by (simp add: step_def)
  qed
next
  case (Call_setAccessToken e t)
  with n show ?thesis by (simp add: step_def idle_setAccessToken)
next
  case (Notify obj)
  with n show ?thesis by (simp add: step_def idle_progress)
next
  case (Load_replies i r)
  with n show ?thesis by (simp add: step_def idle_eagerlyLoad_reply split: task.splits)
next
  case (Spawn_settles r)
  with n show ?thesis by (simp add: step_def idle_spawnAndBindService)
next
  case (Call_load uri)
  with n show ?thesis by (simp add: step_def idle_load)
next
  case (Index_replies i ok)
  with a have "\<not> ok" by auto
  with n Index_replies show ?thesis
    by (simp add: step_def index_reply_def split: task.splits)
qed (use n in \<open>simp_all add: step_def start_def index_def query_def getContext_def query_from_def
      query_reply_def query_throws_def split: option.splits prod.splits task.splits caller.splits\<close>)

lemma idle_run:
  "pathBeingIndexed s = None \<Longrightarrow> \<forall>i. Index_replies i True \<notin> set acts \<Longrightarrow>
   pathBeingIndexed (run u acts s) = None \<and>
   changes_while_indexing (run u acts s) = changes_while_indexing s"
proof (induction acts arbitrary: s)
  case Nil
  then show ?case by simp
next
  case (Cons a acts)
  from Cons.prems have "\<forall>i. a \<noteq> Index_replies i True" and rest: "\<forall>i. Index_replies i True \<notin> set acts"
    by auto
  with Cons.prems have "pathBeingIndexed (step u a s) = None \<and>
      changes_while_indexing (step u a s) = changes_while_indexing s"
    using idle_step by blast
  with Cons.IH [of "step u a s"] rest show ?case by simp
qed

lemma done_clears:
  "statusBar s \<noteq> None \<Longrightarrow>
   pathBeingIndexed (progress Done s) = None \<and>
   changes_while_indexing (progress Done s) = changes_while_indexing s \<and>
   filter is_change (trace (progress Done s)) = filter is_change (trace s)"
  by (auto simp add: progress_def Let_def eagerlyLoad_def split: option.splits prod.splits)

text \<open>
  C9 as stated fails: \<^verbatim>\<open>index\<close> does not look at \<^verbatim>\<open>pathBeingIndexed\<close>, so a second
  index request for the same path can be under way when \<^verbatim>\<open>Done\<close> arrives. When the
  worker acknowledges it before it answers the load that follows \<^verbatim>\<open>Done\<close>, the change
  event of the completed job is fired with the load result true and the path being
  indexed set again.
\<close>

theorem change_while_indexing_counterexample:
  "pathBeingIndexed (run ''u'' [Call_setAccessToken ''u'' None, Call_load (Some ''/repo''), Spawn_settles Bfg,
      Service_resumes 0, Call_load (Some ''/repo''), Service_resumes 0, Load_replies 0 (Some False),
      Call_index, Service_resumes 0, Index_replies 0 True] createLocalEmbeddingsController) = Some ''/repo'' \<and>
   trace (run ''u'' [Call_index, Service_resumes 0, Notify Done, Service_resumes 1, Index_replies 0 True,
      Load_replies 0 (Some True)]
     (run ''u'' [Call_setAccessToken ''u'' None, Call_load (Some ''/repo''), Spawn_settles Bfg,
        Service_resumes 0, Call_load (Some ''/repo''), Service_resumes 0, Load_replies 0 (Some False),
        Call_index, Service_resumes 0, Index_replies 0 True] createLocalEmbeddingsController)) =
     trace (run ''u'' [Call_setAccessToken ''u'' None, Call_load (Some ''/repo''), Spawn_settles Bfg,
        Service_resumes 0, Call_load (Some ''/repo''), Service_resumes 0, Load_replies 0 (Some False),
        Call_index, Service_resumes 0, Index_replies 0 True] createLocalEmbeddingsController) @
     [Request (Index_repo ''/repo'' ''openai/text-embedding-ada-002'' 1536),
      FireStatus \<lparr>v_endpointIsDotcom = True, v_lastRepo = Some (''/repo'', False),
                  v_pathBeingIndexed = None\<rparr>,
      Request (Load_repo ''/repo''),
      FireStatus \<lparr>v_endpointIsDotcom = True, v_lastRepo = Some (''/repo'', False),
                  v_pathBeingIndexed = Some ''/repo''\<rparr>,
      Settled C_index R_void,
      FireStatus \<lparr>v_endpointIsDotcom = True, v_lastRepo = Some (''/repo'', True),
                  v_pathBeingIndexed = Some ''/repo''\<rparr>,
      FireChange \<lparr>v_endpointIsDotcom = True, v_lastRepo = Some (''/repo'', True),
                  v_pathBeingIndexed = Some ''/repo''\<rparr>]"
  by code_simp

text \<open>
  C9, amended. The handler of \<^verbatim>\<open>Done\<close> clears \<^verbatim>\<open>pathBeingIndexed\<close> and fires no change
  event itself; and as long as the worker acknowledges no further index request,
  whatever else happens, \<^verbatim>\<open>pathBeingIndexed\<close> stays clear and no change event is fired
  whose listener finds it set.
\<close>

theorem indexing_cleared_before_change:
  assumes "statusBar s \<noteq> None" and "serviceStarted s" and "\<forall>i. Index_replies i True \<notin> set acts"
  shows
    "pathBeingIndexed (step u (Notify Done) s) = None \<and>
     filter is_change (trace (step u (Notify Done) s)) = filter is_change (trace s) \<and>
     pathBeingIndexed (run u (Notify Done # acts) s) = None \<and>
     changes_while_indexing (run u (Notify Done # acts) s) = changes_while_indexing s"
proof -
  have handler: "step u (Notify Done) s = progress Done s"
    using assms by (simp add: step_def)
  note first = done_clears [OF assms(1)]
  from first assms(3) have "pathBeingIndexed (run u acts (progress Done s)) = None \<and>
      changes_while_indexing (run u acts (progress Done s)) = changes_while_indexing (progress Done s)"
    using idle_run [of "progress Done s" acts u] by blast
  with first show ?thesis
    by (simp add: handler)
qed

theorem indexing_cleared_before_change_witness:
  "statusBar (run ''u'' [Call_setAccessToken ''u'' None, Call_load (Some ''/repo''), Spawn_settles Bfg,
      Service_resumes 0, Call_load (Some ''/repo''), Service_resumes 0, Load_replies 0 (Some False),
      Call_index, Service_resumes 0, Index_replies 0 True] createLocalEmbeddingsController) \<noteq> None \<and>
   pathBeingIndexed (run ''u'' [Call_setAccessToken ''u'' None, Call_load (Some ''/repo''), Spawn_settles Bfg,
      Service_resumes 0, Call_load (Some ''/repo''), Service_resumes 0, Load_replies 0 (Some False),
      Call_index, Service_resumes 0, Index_replies 0 True] createLocalEmbeddingsController) = Some ''/repo'' \<and>
   pathBeingIndexed (run ''u'' [Notify Done, Service_resumes 0, Load_replies 0 (Some True)]
     (run ''u'' [Call_setAccessToken ''u'' None, Call_load (Some ''/repo''), Spawn_settles Bfg,
        Service_resumes 0, Call_load (Some ''/repo''), Service_resumes 0, Load_replies 0 (Some False),
        Call_index, Service_resumes 0, Index_replies 0 True] createLocalEmbeddingsController)) = None \<and>
   changes_while_indexing (run ''u'' [Notify Done, Service_resumes 0, Load_replies 0 (Some True)]
     (run ''u'' [Call_setAccessToken ''u'' None, Call_load (Some ''/repo''), Spawn_settles Bfg,
        Service_resumes 0, Call_load (Some ''/repo''), Service_resumes 0, Load_replies 0 (Some False),
        Call_index, Service_resumes 0, Index_replies 0 True] createLocalEmbeddingsController)) = 0 \<and>
   last (trace (run ''u'' [Notify Done, Service_resumes 0, Load_replies 0 (Some True)]
     (run ''u'' [Call_setAccessToken ''u'' None, Call_load (Some ''/repo''), Spawn_settles Bfg,
        Service_resumes 0, Call_load (Some ''/repo''), Service_resumes 0, Load_replies 0 (Some False),
        Call_index, Service_resumes 0, Index_replies 0 True] createLocalEmbeddingsController))) =
     FireChange \<lparr>v_endpointIsDotcom = True, v_lastRepo = Some (''/repo'', True),
                 v_pathBeingIndexed = None\<rparr>"
proof -
  let ?indexing = "run ''u'' [Call_setAccessToken ''u'' None, Call_load (Some ''/repo''), Spawn_settles Bfg,
      Service_resumes 0, Call_load (Some ''/repo''), Service_resumes 0, Load_replies 0 (Some False),
      Call_index, Service_resumes 0, Index_replies 0 True] createLocalEmbeddingsController"
  have a1: "statusBar ?indexing \<noteq> None" and a2: "serviceStarted ?indexing"
    and a3: "pathBeingIndexed ?indexing = Some ''/repo''"
    and a4: "changes_while_indexing ?indexing = 0"
    and a5: "last (trace (run ''u'' [Notify Done, Service_resumes 0, Load_replies 0 (Some True)] ?indexing)) =
      FireChange \<lparr>v_endpointIsDotcom = True, v_lastRepo = Some (''/repo'', True),
                  v_pathBeingIndexed = None\<rparr>"
    by code_simp+
  have a6: "\<forall>i. Index_replies i True \<notin> set [Service_resumes 0, Load_replies 0 (Some True)]"
    by simp
  show ?thesis
    using a1 a3 a4 a5 indexing_cleared_before_change [OF a1 a2 a6, of "''u''"]
    by simp
qed

end
